theory Spec2Isabelle
  imports Complex_Main
begin

section \<open>Python and numpy primitives used by the transcription pipeline\<close>

text \<open>
  Python exceptions are values: every function that can raise returns
  \<open>py_error + 'a\<close>, with \<open>Inl\<close> for the exception. Arrays of two dimensions are
  lists of rows. Python floats are modelled as exact rationals (reals where a
  logarithm is taken); the rounding error of floating-point arithmetic is not
  modelled.
\<close>

datatype py_error =
    IndexError
  | TypeError
  | ValueError
  | OverflowError
  | ZeroDivisionError
  | UnboundLocalError string

definition bind_err :: "('e + 'a) \<Rightarrow> ('a \<Rightarrow> 'e + 'b) \<Rightarrow> 'e + 'b" where
  "bind_err m f = (case m of Inl e \<Rightarrow> Inl e | Inr x \<Rightarrow> f x)"

text \<open>A \<open>for\<close> loop over a list whose body may raise: the first exception ends the loop.\<close>

fun for_each :: "('x \<Rightarrow> 's \<Rightarrow> 'e + 's) \<Rightarrow> 'x list \<Rightarrow> 's \<Rightarrow> 'e + 's" where
  "for_each body [] s = Inr s"
| "for_each body (x # xs) s = bind_err (body x s) (for_each body xs)"

text \<open>\<open>np.zeros((n, m))\<close>.\<close>

definition np_zeros :: "nat \<Rightarrow> nat \<Rightarrow> 'a::zero list list" where
  "np_zeros n m = replicate n (replicate m 0)"

text \<open>\<open>np.round\<close> rounds to the nearest integer, a tie to the even neighbour.\<close>

definition np_round :: "rat \<Rightarrow> int" where
  "np_round x =
     (let f = \<lfloor>x\<rfloor>; d = x - of_int f
      in if d < 1 / 2 then f
         else if 1 / 2 < d then f + 1
         else if even f then f else f + 1)"

text \<open>\<open>int(x)\<close> on a float truncates towards zero.\<close>

definition py_int :: "rat \<Rightarrow> int" where
  "py_int x = (if 0 \<le> x then \<lfloor>x\<rfloor> else \<lceil>x\<rceil>)"

text \<open>
  An integer index into an axis of length \<open>n\<close>: a negative index counts from the end,
  an index outside \<open>[-n, n)\<close> raises IndexError.
\<close>

definition py_index :: "nat \<Rightarrow> int \<Rightarrow> py_error + nat" where
  "py_index n i =
     (if 0 \<le> i \<and> i < int n then Inr (nat i)
      else if - int n \<le> i \<and> i < 0 then Inr (nat (int n + i))
      else Inl IndexError)"

text \<open>
  A bound of a slice \<open>a[start:stop]\<close> over an axis of length \<open>n\<close>: a negative bound
  counts from the end, and every bound is clipped to \<open>[0, n]\<close>. A slice never raises.
\<close>

definition slice_bound :: "nat \<Rightarrow> int \<Rightarrow> nat" where
  "slice_bound n i = (if i < 0 then nat (int n + i) else min (nat i) n)"

definition set_rows_col :: "nat \<Rightarrow> nat \<Rightarrow> nat \<Rightarrow> 'a \<Rightarrow> 'a list list \<Rightarrow> 'a list list" where
  "set_rows_col lo hi c v M =
     map (\<lambda>r. if lo \<le> r \<and> r < hi then (M ! r)[c := v] else M ! r) [0..<length M]"

text \<open>\<open>a[start:stop, col] = v\<close> on an array with \<open>ncols\<close> columns.\<close>

definition assign_slice_col ::
  "nat \<Rightarrow> int \<Rightarrow> int \<Rightarrow> int \<Rightarrow> 'a \<Rightarrow> 'a list list \<Rightarrow> py_error + 'a list list" where
  "assign_slice_col ncols start stop col v M =
     bind_err (py_index ncols col) (\<lambda>c.
       Inr (set_rows_col (slice_bound (length M) start) (slice_bound (length M) stop) c v M))"

text \<open>\<open>a[row, col] = v\<close> on an array with \<open>ncols\<close> columns.\<close>

definition assign_cell ::
  "nat \<Rightarrow> int \<Rightarrow> int \<Rightarrow> 'a \<Rightarrow> 'a list list \<Rightarrow> py_error + 'a list list" where
  "assign_cell ncols row col v M =
     bind_err (py_index (length M) row) (\<lambda>r.
     bind_err (py_index ncols col) (\<lambda>c.
       Inr (M[r := (M ! r)[c := v]])))"

section \<open>Ground truth from MIDI notes (ps\_preprocessing.py)\<close>

text \<open>
  A row of the array that \<open>madmom.io.midi.load_midi\<close> returns:
  (onset, pitch, duration, velocity, channel), all floats.
\<close>

type_synonym midi_note = "rat \<times> rat \<times> rat \<times> rat \<times> rat"

text \<open>
  \<open>int(np.round(x / dt))\<close>. The numerator is a numpy float, so a zero \<open>dt\<close> gives
  an infinity or a NaN, which \<open>int\<close> refuses.
\<close>

definition frame_of :: "rat \<Rightarrow> rat \<Rightarrow> py_error + int" where
  "frame_of x dt =
     (if dt = 0 then Inl (if x = 0 then ValueError else OverflowError)
      else Inr (np_round (x / dt)))"

text \<open>The body of the loop of \<open>midi_to_groundtruth\<close>, for one note.\<close>

fun groundtruth_note ::
  "rat \<Rightarrow> bool \<Rightarrow> midi_note \<Rightarrow> int list list \<times> int list list
     \<Rightarrow> py_error + int list list \<times> int list list" where
  "groundtruth_note dt is_chroma (onset, pitch_f, duration, velocity, channel)
       (ground_truth, onset_gt) =
     (let pitch = py_int pitch_f in
      bind_err (frame_of onset dt) (\<lambda>frame_start.
      bind_err (frame_of (onset + duration) dt) (\<lambda>frame_end.
      let label = (if is_chroma then (pitch - 21) mod 12 else pitch - 21) in
      bind_err (assign_slice_col (if is_chroma then 12 else 88)
                  frame_start frame_end label 1 ground_truth) (\<lambda>ground_truth'.
      if frame_start + 2 \<le> frame_end
      then bind_err (assign_slice_col 88 frame_start (frame_start + 2) label 1 onset_gt)
             (\<lambda>onset_gt'. Inr (ground_truth', onset_gt'))
      else Inr (ground_truth', onset_gt)))))"

definition midi_to_groundtruth ::
  "midi_note list \<Rightarrow> rat \<Rightarrow> nat \<Rightarrow> bool \<Rightarrow> py_error + int list list \<times> int list list" where
  "midi_to_groundtruth notes dt n_frames is_chroma =
     for_each (groundtruth_note dt is_chroma) notes
       (np_zeros n_frames (if is_chroma then 12 else 88), np_zeros n_frames 88)"

text \<open>
  Vocabulary of the statements: the frames and the label that the loop body computes
  for one note when \<open>dt\<close> is not zero, the notes of the piano range with
  non-negative times, and the shape of an array.
\<close>

definition note_start :: "rat \<Rightarrow> midi_note \<Rightarrow> int" where
  "note_start dt n = (case n of (onset, pitch_f, duration, velocity, channel) \<Rightarrow> np_round (onset / dt))"

definition note_end :: "rat \<Rightarrow> midi_note \<Rightarrow> int" where
  "note_end dt n = (case n of (onset, pitch_f, duration, velocity, channel) \<Rightarrow> np_round ((onset + duration) / dt))"

definition note_label :: "bool \<Rightarrow> midi_note \<Rightarrow> int" where
  "note_label is_chroma n = (case n of (onset, pitch_f, duration, velocity, channel) \<Rightarrow>
      if is_chroma then (py_int pitch_f - 21) mod 12 else py_int pitch_f - 21)"

definition piano_note :: "midi_note \<Rightarrow> bool" where
  "piano_note n = (case n of (onset, pitch_f, duration, velocity, channel) \<Rightarrow>
      0 \<le> onset \<and> 0 \<le> duration \<and> 21 \<le> py_int pitch_f \<and> py_int pitch_f \<le> 108)"

definition has_shape :: "nat \<Rightarrow> nat \<Rightarrow> 'a list list \<Rightarrow> bool" where
  "has_shape n m M = (length M = n \<and> (\<forall>row \<in> set M. length row = m))"

definition n_cols :: "bool \<Rightarrow> nat" where
  "n_cols is_chroma = (if is_chroma then 12 else 88)"

definition sounding :: "rat \<Rightarrow> bool \<Rightarrow> midi_note list \<Rightarrow> nat \<Rightarrow> nat \<Rightarrow> bool" where
  "sounding dt ch ns r c =
     (\<exists>nt \<in> set ns. note_start dt nt \<le> int r \<and> int r < note_end dt nt \<and> int c = note_label ch nt)"

definition onsetting :: "rat \<Rightarrow> bool \<Rightarrow> midi_note list \<Rightarrow> nat \<Rightarrow> nat \<Rightarrow> bool" where
  "onsetting dt ch ns r c =
     (\<exists>nt \<in> set ns. note_start dt nt + 2 \<le> note_end dt nt \<and> note_start dt nt \<le> int r
         \<and> int r < note_start dt nt + 2 \<and> int c = note_label ch nt)"

text \<open>
  The inner loop of \<open>midi_to_triple_groundtruth\<close>, for one \<open>index\<close> of
  \<open>range(0, n_onset_plus)\<close>. The arrays of the list \<open>onset_plus\<close> are distinct objects,
  so the write into one of them is an update of that entry of the list.
\<close>

definition onset_plus_step ::
  "int \<Rightarrow> int \<Rightarrow> int \<Rightarrow> nat \<Rightarrow> int list list list \<Rightarrow> py_error + int list list list" where
  "onset_plus_step frame_start frame_end label index onset_plus =
     (if frame_start + int index + 1 < frame_end
      then bind_err (assign_cell 88 (frame_start + int index + 1) label 1 (onset_plus ! index))
             (\<lambda>M. Inr (onset_plus[index := M]))
      else Inr onset_plus)"

text \<open>The body of the loop of \<open>midi_to_triple_groundtruth\<close>, for one note.\<close>

fun triple_note ::
  "rat \<Rightarrow> int \<Rightarrow> midi_note
     \<Rightarrow> int list list \<times> int list list \<times> int list list \<times> int list list list
     \<Rightarrow> py_error + int list list \<times> int list list \<times> int list list \<times> int list list list" where
  "triple_note dt n_onset_plus (onset, pitch_f, duration, velocity, channel)
       (frame_gt, onset_gt, offset_gt, onset_plus) =
     (let pitch = py_int pitch_f in
      bind_err (frame_of onset dt) (\<lambda>frame_start.
      bind_err (frame_of (onset + duration) dt) (\<lambda>frame_end.
      let label = pitch - 21 in
      bind_err (assign_slice_col 88 frame_start frame_end label 1 frame_gt) (\<lambda>frame_gt'.
      bind_err (assign_cell 88 frame_start label 1 onset_gt) (\<lambda>onset_gt'.
      bind_err (for_each (onset_plus_step frame_start frame_end label)
                  [0..<nat n_onset_plus] onset_plus) (\<lambda>onset_plus'.
      bind_err (assign_cell 88 frame_end label 1 offset_gt) (\<lambda>offset_gt'.
      Inr (frame_gt', onset_gt', offset_gt', onset_plus'))))))))"

text \<open>The result is (frame\_gt, onset\_gt, offset\_gt, onset\_plus), as the source returns it.\<close>

definition midi_to_triple_groundtruth ::
  "midi_note list \<Rightarrow> rat \<Rightarrow> nat \<Rightarrow> int
     \<Rightarrow> py_error + int list list \<times> int list list \<times> int list list \<times> int list list list" where
  "midi_to_triple_groundtruth notes dt n_frames n_onset_plus =
     for_each (triple_note dt n_onset_plus) notes
       (np_zeros n_frames 88, np_zeros n_frames 88, np_zeros n_frames 88,
        replicate (nat n_onset_plus) (np_zeros n_frames 88))"

text \<open>The shapes that the loop of \<open>midi_to_triple_groundtruth\<close> keeps.\<close>

definition shapes :: "nat \<Rightarrow> 'a list list list \<Rightarrow> bool" where
  "shapes n Ms = (\<forall>M \<in> set Ms. has_shape n 88 M)"

definition triple_ok ::
  "nat \<Rightarrow> int \<Rightarrow> int list list \<times> int list list \<times> int list list \<times> int list list list \<Rightarrow> bool" where
  "triple_ok n k st = (case st of (frame_gt, onset_gt, offset_gt, onset_plus) \<Rightarrow>
      has_shape n 88 frame_gt \<and> has_shape n 88 onset_gt \<and> has_shape n 88 offset_gt
    \<and> shapes n onset_plus \<and> length onset_plus = nat k)"

text \<open>
  Vocabulary for the onset array of \<open>midi_to_triple_groundtruth\<close>: some note of the list
  starts at row \<open>r\<close> with label \<open>c\<close>.
\<close>

definition starting :: "rat \<Rightarrow> midi_note list \<Rightarrow> nat \<Rightarrow> nat \<Rightarrow> bool" where
  "starting dt ns r c =
     (\<exists>nt \<in> set ns. int r = note_start dt nt \<and> int c = note_label False nt)"

section \<open>Serialising examples (ps\_preprocessing.py)\<close>

text \<open>
  The writers take the spectrogram that \<open>wav_to_spec\<close> or \<open>wav_to_hpcp\<close> computed from the
  audio file and the notes that \<open>midi.load_midi\<close> read from the MIDI file; \<open>fps\<close> is
  \<open>audio_config['fps']\<close>. A \<open>TFRecordWriter\<close> is the list of the examples written so
  far; a writer function returns that list with its count.
\<close>

text \<open>\<open>1. / fps\<close>\<close>

definition py_recip :: "rat \<Rightarrow> py_error + rat" where
  "py_recip fps = (if fps = 0 then Inl ZeroDivisionError else Inr (1 / fps))"

text \<open>\<open>range(start, stop)\<close>\<close>

definition py_range :: "int \<Rightarrow> int \<Rightarrow> int list" where
  "py_range start stop = map (\<lambda>i. start + int i) [0..<nat (stop - start)]"

text \<open>\<open>a[start:stop, :]\<close>: the rows of a slice, which never raises.\<close>

definition rows_slice :: "'a list \<Rightarrow> int \<Rightarrow> int \<Rightarrow> 'a list" where
  "rows_slice M start stop =
     (let lo = slice_bound (length M) start; hi = slice_bound (length M) stop
      in take (hi - lo) (drop lo M))"

text \<open>
  \<open>np.divide(spectrogram, np.max(spectrogram))\<close> when \<open>norm\<close> is set. \<open>np.max\<close> of an
  array without elements raises ValueError. (A zero maximum gives NaN in numpy, which
  the rationals do not have: the quotient is then 0 here.)
\<close>

definition normalise :: "bool \<Rightarrow> rat list list \<Rightarrow> py_error + rat list list" where
  "normalise norm_flag spectrogram =
     (if norm_flag
      then (if concat spectrogram = [] then Inl ValueError
            else Inr (map (map (\<lambda>x. x / Max (set (concat spectrogram)))) spectrogram))
      else Inr spectrogram)"

text \<open>
  The value bound to \<open>ground_truth\<close> in \<open>write_file_to_tfrecords\<close> is the tuple that
  \<open>midi_to_groundtruth\<close> returns. \<open>ground_truth[frame, :]\<close> indexes that tuple with a
  tuple, and a Python tuple accepts only an integer or a slice: TypeError.
\<close>

definition tuple_getitem_frame ::
  "int list list \<times> int list list \<Rightarrow> int \<Rightarrow> py_error + int list" where
  "tuple_getitem_frame ground_truth frame = Inl TypeError"

record example =
  ex_label :: "int list"
  ex_spec :: "rat list"

definition features_to_example :: "rat list list \<Rightarrow> int list \<Rightarrow> example" where
  "features_to_example spectrogram ground_truth =
     \<lparr>ex_label = ground_truth, ex_spec = concat spectrogram\<rparr>"

text \<open>
  The body of the loop of \<open>write_file_to_tfrecords\<close>: the arguments of
  \<open>features_to_example\<close> are evaluated from left to right.
\<close>

definition tfrecords_frame ::
  "rat list list \<Rightarrow> int list list \<times> int list list \<Rightarrow> int \<Rightarrow> int
     \<Rightarrow> example list \<times> nat \<Rightarrow> py_error + example list \<times> nat" where
  "tfrecords_frame spectrogram ground_truth context_frames frame st =
     (case st of (written, total_examples_processed) \<Rightarrow>
      let window = rows_slice spectrogram (frame - context_frames) (frame + context_frames + 1) in
      bind_err (tuple_getitem_frame ground_truth frame) (\<lambda>row.
      Inr (written @ [features_to_example window row], total_examples_processed + 1)))"

definition write_file_to_tfrecords ::
  "rat list list \<Rightarrow> midi_note list \<Rightarrow> rat \<Rightarrow> bool \<Rightarrow> int
     \<Rightarrow> py_error + example list \<times> nat" where
  "write_file_to_tfrecords spectrogram0 notes fps norm_flag context_frames =
     bind_err (py_recip fps) (\<lambda>dt.
     bind_err (midi_to_groundtruth notes dt (length spectrogram0) False) (\<lambda>ground_truth.
     bind_err (normalise norm_flag spectrogram0) (\<lambda>spectrogram.
     for_each (tfrecords_frame spectrogram ground_truth context_frames)
       (py_range context_frames (int (length spectrogram) - context_frames)) ([], 0))))"

text \<open>
  \<open>chunks(sequence, length)\<close>, a generator consumed by \<open>list\<close>: one slice
  \<open>sequence[index:index + length]\<close> for every index of
  \<open>range(0, len(sequence), length)\<close>. A zero step raises ValueError, a negative step
  gives an empty range, and a positive step counts up from 0 while the index is below
  the length.
\<close>

function range_from :: "nat \<Rightarrow> nat \<Rightarrow> nat \<Rightarrow> nat list" where
  "range_from index n step =
     (if 0 < step \<and> index < n then index # range_from (index + step) n step else [])"
  by pat_completeness auto
termination
  by (relation "measure (\<lambda>(index, n, step). n - index)") auto

definition range_step :: "nat \<Rightarrow> int \<Rightarrow> py_error + nat list" where
  "range_step n step =
     (if step = 0 then Inl ValueError
      else if step < 0 then Inr []
      else Inr (range_from 0 n (nat step)))"

definition chunks :: "'a list \<Rightarrow> int \<Rightarrow> py_error + 'a list list" where
  "chunks sequence len =
     bind_err (range_step (length sequence) len) (\<lambda>indices.
     Inr (map (\<lambda>index. rows_slice sequence (int index) (int index + len)) indices))"

text \<open>
  \<open>split[-1] = np.append(split[-1], np.zeros([context_frames - split[-1].shape[0],
  split[-1].shape[1]]), axis=0)\<close>: the last element of an empty list is an IndexError,
  a negative dimension of \<open>np.zeros\<close> a ValueError.
\<close>

definition pad_last :: "int \<Rightarrow> 'a::zero list list list \<Rightarrow> py_error + 'a list list list" where
  "pad_last context_frames split =
     (if split = [] then Inl IndexError
      else let l = last split; pad = context_frames - int (length l) in
        if pad < 0 then Inl ValueError
        else Inr (butlast split @ [l @ np_zeros (nat pad) (length (hd l))]))"

record multi_head_example =
  mh_label :: "int list"
  mh_onset :: "int list"
  mh_spec :: "rat list"

definition features_to_non_overlap_multi_head_example ::
  "rat list list \<Rightarrow> int list list \<Rightarrow> int list list \<Rightarrow> multi_head_example" where
  "features_to_non_overlap_multi_head_example spectrogram ground_truth onset =
     \<lparr>mh_label = concat ground_truth, mh_onset = concat onset, mh_spec = concat spectrogram\<rparr>"

text \<open>The loop over \<open>zip(split_spec, split_gt, split_onset_gt)\<close>, which cannot raise.\<close>

definition write_chunks ::
  "rat list list list \<Rightarrow> int list list list \<Rightarrow> int list list list
     \<Rightarrow> multi_head_example list \<times> nat" where
  "write_chunks split_spec split_gt split_onset_gt =
     foldl (\<lambda>(written, total_examples_processed) (ex, gt, onset).
              (written @ [features_to_non_overlap_multi_head_example ex gt onset],
               total_examples_processed + 1))
       ([], 0) (zip split_spec (zip split_gt split_onset_gt))"

definition write_file_to_non_overlap_tfrecords ::
  "rat list list \<Rightarrow> midi_note list \<Rightarrow> rat \<Rightarrow> bool \<Rightarrow> int
     \<Rightarrow> py_error + multi_head_example list \<times> nat" where
  "write_file_to_non_overlap_tfrecords spectrogram0 notes fps norm_flag context_frames =
     bind_err (py_recip fps) (\<lambda>dt.
     bind_err (midi_to_groundtruth notes dt (length spectrogram0) False) (\<lambda>(ground_truth, onset_gt).
     bind_err (normalise norm_flag spectrogram0) (\<lambda>spectrogram.
     bind_err (chunks spectrogram context_frames) (\<lambda>split_spec0.
     bind_err (chunks ground_truth context_frames) (\<lambda>split_gt0.
     bind_err (chunks onset_gt context_frames) (\<lambda>split_onset_gt0.
     bind_err (pad_last context_frames split_spec0) (\<lambda>split_spec.
     bind_err (pad_last context_frames split_gt0) (\<lambda>split_gt.
     bind_err (pad_last context_frames split_onset_gt0) (\<lambda>split_onset_gt.
     Inr (write_chunks split_spec split_gt split_onset_gt))))))))))"

text \<open>
  Vocabulary of the statements: the number of chunks \<open>ceil(F / C)\<close>, the slice
  \<open>[k * C, k * C + C)\<close> of a sequence, and that slice padded with rows of zeros to
  \<open>C\<close> rows.
\<close>

definition n_chunks :: "nat \<Rightarrow> nat \<Rightarrow> nat" where
  "n_chunks F C = (F + C - 1) div C"

definition chunk :: "nat \<Rightarrow> 'a list \<Rightarrow> nat \<Rightarrow> 'a list" where
  "chunk C xs k = take C (drop (k * C) xs)"

definition padded :: "nat \<Rightarrow> nat \<Rightarrow> 'a::zero list list \<Rightarrow> nat \<Rightarrow> 'a list list" where
  "padded C m xs k = chunk C xs k @ np_zeros (C - length (chunk C xs k)) m"

section \<open>Class weights (ps\_model.py)\<close>

text \<open>
  \<open>np.where(labels == 1.0)\<close> on an array of two dimensions: the row and column indices
  of the entries equal to 1, in row-major order. The two index arrays are kept together
  as a list of pairs.
\<close>

definition np_where_one :: "rat list list \<Rightarrow> (nat \<times> nat) list" where
  "np_where_one labels =
     concat (map (\<lambda>r. map (\<lambda>c. (r, c)) (filter (\<lambda>c. labels ! r ! c = 1) [0..<length (labels ! r)]))
               [0..<length labels])"

text \<open>\<open>np.zeros(np.shape(labels))\<close>\<close>

definition zeros_like :: "rat list list \<Rightarrow> rat list list" where
  "zeros_like labels = map (\<lambda>row. replicate (length row) 0) labels"

text \<open>
  \<open>weights[rows, :] = 1.0\<close> with the row indices of \<open>np.where\<close>, then
  \<open>weights[(rows, cols)] = 2.0\<close> with its index pairs. The indices come from
  \<open>np.where\<close> on an array of the same shape, so none is out of range.
\<close>

definition set_rows_one :: "(nat \<times> nat) list \<Rightarrow> rat list list \<Rightarrow> rat list list" where
  "set_rows_one idx W = fold (\<lambda>(r, c) W. W[r := replicate (length (W ! r)) 1]) idx W"

definition set_cells_two :: "(nat \<times> nat) list \<Rightarrow> rat list list \<Rightarrow> rat list list" where
  "set_cells_two idx W = fold (\<lambda>(r, c) W. W[r := (W ! r)[c := 2]]) idx W"

definition weights_from_labels :: "rat list list \<Rightarrow> rat list list" where
  "weights_from_labels labels =
     (let labeled_examples = np_where_one labels;
          weights = zeros_like labels;
          weights = set_rows_one labeled_examples weights;
          weights = set_cells_two labeled_examples weights
      in map (map (\<lambda>w. if w = 0 then 1 / 4 else w)) weights)"

section \<open>Inference (ps\_inference.py)\<close>

text \<open>
  The predictor built from the estimator is a function from a feature window to its
  \<open>'probabilities'\<close> and \<open>'onset_probabilities'\<close>; both are taken here without the batch
  axis that \<open>np.squeeze\<close> removes.
\<close>

type_synonym predictor = "rat list list \<Rightarrow> rat list list \<times> rat list list"

definition get_activation :: "rat list list \<Rightarrow> predictor \<Rightarrow> rat list list \<times> rat list list" where
  "get_activation features estimator_predictor = estimator_predictor features"

text \<open>
  Modelled from the spec: \<open>ps_utility.chunks\<close>, which \<open>ps_inference\<close> calls as
  \<open>util.chunks\<close>, is not among the sources. The spec (4.2) describes it as producing the
  fixed-size slices of a sequence, the final one possibly shorter and not padded, which
  is what \<open>chunks\<close> of \<open>ps_preprocessing\<close> computes.
\<close>

definition util_chunks :: "'a list \<Rightarrow> int \<Rightarrow> py_error + 'a list list" where
  "util_chunks sequence len = chunks sequence len"

text \<open>
  \<open>np.append(a, b, axis=0)\<close> for an array \<open>a\<close> with \<open>ncols\<close> columns: the rows of \<open>b\<close>
  must have as many columns, else ValueError.
\<close>

definition np_append_rows :: "nat \<Rightarrow> 'a list list \<Rightarrow> 'a list list \<Rightarrow> py_error + 'a list list" where
  "np_append_rows ncols a b =
     (if \<forall>row \<in> set b. length row = ncols then Inr (a @ b) else Inl ValueError)"

text \<open>The body of the loop of \<open>spectrogram_to_non_overlap_note_activation\<close>.\<close>

definition activation_step ::
  "predictor \<Rightarrow> rat list list \<Rightarrow> rat list list \<times> rat list list
     \<Rightarrow> py_error + rat list list \<times> rat list list" where
  "activation_step estimator_predictor split st =
     (case st of (note_activation, onset_activation) \<Rightarrow>
      case get_activation split estimator_predictor of (frame_act, onset_act) \<Rightarrow>
      bind_err (np_append_rows 88 note_activation frame_act) (\<lambda>note_activation'.
      bind_err (np_append_rows 88 onset_activation onset_act) (\<lambda>onset_activation'.
      Inr (note_activation', onset_activation'))))"

definition spectrogram_to_non_overlap_note_activation ::
  "rat list list \<Rightarrow> int \<Rightarrow> predictor \<Rightarrow> py_error + rat list list \<times> rat list list" where
  "spectrogram_to_non_overlap_note_activation spec context_frames estimator_predictor =
     bind_err (util_chunks spec context_frames) (\<lambda>split_spec0.
     bind_err (pad_last context_frames split_spec0) (\<lambda>split_spec.
     bind_err (for_each (activation_step estimator_predictor) split_spec
                 (np_zeros 1 88, np_zeros 1 88)) (\<lambda>(note_activation, onset_activation).
     Inr (rows_slice note_activation 3 (int (length spec) + 3),
          rows_slice onset_activation 1 (int (length spec) + 1)))))"

text \<open>
  \<open>note_activation[frame, :] = get_activation(...)\<close> in
  \<open>spectrogram_to_note_activation\<close>: the value is the pair of arrays that
  \<open>get_activation\<close> returns. numpy turns the pair into one array with a leading axis of
  length 2, which does not broadcast into a row of 88 entries: ValueError (after the
  check of the row index).
\<close>

definition assign_row_pair ::
  "int \<Rightarrow> rat list list \<times> rat list list \<Rightarrow> rat list list \<Rightarrow> py_error + rat list list" where
  "assign_row_pair frame val M = bind_err (py_index (length M) frame) (\<lambda>r. Inl ValueError)"

definition spectrogram_to_note_activation ::
  "rat list list \<Rightarrow> int \<Rightarrow> predictor \<Rightarrow> py_error + rat list list" where
  "spectrogram_to_note_activation spec context_frames estimator_predictor =
     bind_err (for_each (\<lambda>frame note_activation.
                  assign_row_pair frame
                    (get_activation (rows_slice spec (frame - context_frames)
                                       (frame + context_frames + 1)) estimator_predictor)
                    note_activation)
                 (py_range context_frames (int (length spec) - context_frames))
                 (np_zeros (length spec) 88)) (\<lambda>note_activation.
     Inr (drop 8 note_activation @ np_zeros 8 88))"

text \<open>
  Reading a local variable: a name that no executed statement has assigned raises
  UnboundLocalError.
\<close>

definition read_local :: "string \<Rightarrow> 'a option \<Rightarrow> py_error + 'a" where
  "read_local name v = (case v of None \<Rightarrow> Inl (UnboundLocalError name) | Some x \<Rightarrow> Inr x)"

text \<open>
  \<open>get_note_activation\<close>, from the spectrogram of the audio file and the notes of the MIDI
  file on. The local \<open>onset_activation\<close> is assigned in the recurrent branch only.
\<close>

definition get_note_activation ::
  "rat list list \<Rightarrow> midi_note list \<Rightarrow> rat \<Rightarrow> bool \<Rightarrow> int \<Rightarrow> predictor \<Rightarrow> int \<Rightarrow> bool
     \<Rightarrow> py_error + rat list list \<times> rat list list \<times> int list list \<times> int list list
          \<times> int list list \<times> int list list list" where
  "get_note_activation spectrogram0 notes fps norm_flag context_frames predictor n_onset_plus use_rnn =
     bind_err (py_recip fps) (\<lambda>dt.
     bind_err (midi_to_triple_groundtruth notes dt (length spectrogram0) n_onset_plus)
       (\<lambda>(gt_frame, gt_onset, gt_offset, onset_plus).
     bind_err (normalise norm_flag spectrogram0) (\<lambda>spectrogram.
     bind_err
       (if use_rnn
        then bind_err (spectrogram_to_non_overlap_note_activation spectrogram 2000 predictor)
               (\<lambda>(note_activation, onset_activation). Inr (note_activation, Some onset_activation))
        else bind_err (spectrogram_to_note_activation spectrogram context_frames predictor)
               (\<lambda>note_activation. Inr (note_activation, None)))
       (\<lambda>(note_activation, onset_activation_local).
     bind_err (read_local ''onset_activation'' onset_activation_local) (\<lambda>onset_activation.
     Inr (note_activation, onset_activation, gt_frame, gt_onset, gt_offset, onset_plus))))))"

text \<open>
  Vocabulary of the statements: a predictor that returns zeros, one row of 88 entries
  for every row of its input; and the predictors of a fixed window length \<open>C\<close>, which
  return \<open>C\<close> rows of 88 entries for a window of \<open>C\<close> rows.
\<close>

definition zero_predictor :: predictor where
  "zero_predictor features = (map (\<lambda>row. replicate 88 0) features, map (\<lambda>row. replicate 88 0) features)"

definition good_predictor :: "nat \<Rightarrow> predictor \<Rightarrow> bool" where
  "good_predictor C estimator_predictor =
     (\<forall>features. length features = C \<longrightarrow>
        has_shape C 88 (fst (estimator_predictor features))
      \<and> has_shape C 88 (snd (estimator_predictor features)))"

section \<open>The model function (ps\_model.py)\<close>

text \<open>
  A tensor is the list of its values; a cast changes no value and \<open>tf.stop_gradient\<close>
  is the identity on values. The networks are parameters: \<open>resnet_rnn\<close> under the
  variable scopes \<open>frames\<close> and \<open>onsets\<close>, the plain \<open>resnet\<close>, and the fully connected
  sigmoid layer \<open>fc_frame\<close> applied to the concatenation of two tensors. The second
  argument of a network is \<open>is_training\<close>.
\<close>

type_synonym tensor = "real list"

datatype mode_key = TRAIN | EVAL | PREDICT

record networks =
  resnet_rnn_frames :: "tensor \<Rightarrow> bool \<Rightarrow> tensor"
  resnet_rnn_onsets :: "tensor \<Rightarrow> bool \<Rightarrow> tensor"
  resnet :: "tensor \<Rightarrow> bool \<Rightarrow> tensor"
  fc_frame :: "tensor \<Rightarrow> tensor \<Rightarrow> tensor"

definition sigmoid :: "real \<Rightarrow> real" where
  "sigmoid x = 1 / (1 + exp (- x))"

definition tf_sigmoid :: "tensor \<Rightarrow> tensor" where
  "tf_sigmoid t = map sigmoid t"

definition reduce_mean :: "tensor \<Rightarrow> real" where
  "reduce_mean t = sum_list t / real (length t)"

definition clip_by_value :: "tensor \<Rightarrow> real \<Rightarrow> real \<Rightarrow> tensor" where
  "clip_by_value t lo hi = map (\<lambda>x. min (max x lo) hi) t"

text \<open>
  \<open>log_loss(labels, predictions, epsilon)\<close> with the default \<open>weights=None\<close>: the
  individual losses. Tensors of different shapes fail the compatibility assertion.
\<close>

definition log_loss :: "tensor \<Rightarrow> tensor \<Rightarrow> real \<Rightarrow> py_error + tensor" where
  "log_loss labels predictions epsilon =
     (if length predictions \<noteq> length labels then Inl ValueError
      else Inr (map2 (\<lambda>l p. - (l * ln (p + epsilon)) - (1 - l) * ln (1 - p + epsilon))
                  labels predictions))"

text \<open>\<open>xs[i]\<close> on a Python list.\<close>

definition py_getitem :: "'a list \<Rightarrow> int \<Rightarrow> py_error + 'a" where
  "py_getitem xs i = bind_err (py_index (length xs) i) (\<lambda>k. Inr (xs ! k))"

record predictions =
  classes :: tensor
  probabilities :: tensor
  onset_probabilities :: tensor
  logits :: tensor

text \<open>
  The \<open>EstimatorSpec\<close>: its mode, its predictions, its loss (none in PREDICT mode) and
  whether it carries a train op. The evaluation metrics are opaque graph operations
  and are left out.
\<close>

record estimator_spec =
  es_mode :: mode_key
  es_predictions :: predictions
  es_loss :: "real option"
  es_train_op :: bool

text \<open>
  \<open>conv_net_init\<close>. \<open>labels\<close> is \<open>None\<close> or the list of the slices of the label tensor
  along axis 1, which \<open>tf.unstack\<close> returns. A local variable that only one branch of
  an \<open>if\<close> assigns is an option, and reading it goes through \<open>read_local\<close>. The model
  function runs in a fresh graph and no layer registers a regularisation loss, so the
  collection that \<open>tf.losses.get_total_loss\<close> sums holds the losses added here.
\<close>

definition conv_net_init ::
  "networks \<Rightarrow> tensor \<Rightarrow> tensor list option \<Rightarrow> mode_key \<Rightarrow> real \<Rightarrow> bool
     \<Rightarrow> py_error + estimator_spec" where
  "conv_net_init nets features labels mode clip_norm use_rnn =
     bind_err
       (if mode \<noteq> PREDICT
        then (case labels of
                None \<Rightarrow> Inl ValueError
              | Some labels_unstacked \<Rightarrow>
                  bind_err (py_getitem labels_unstacked 0) (\<lambda>label_frames.
                  bind_err (py_getitem labels_unstacked 1) (\<lambda>label_onset.
                  Inr (Some label_frames, Some label_onset))))
        else Inr (None, None))
       (\<lambda>(label_frames, label_onset).
     let (probs_subdiv_1, probs_subdiv_2, logits_plain) =
           (if use_rnn
            then (Some (tf_sigmoid (resnet_rnn_frames nets features (mode = TRAIN))),
                  Some (tf_sigmoid (resnet_rnn_onsets nets features (mode = TRAIN))),
                  None)
            else (None, None, Some (resnet nets features (mode = TRAIN))))
     in
     bind_err (read_local ''probs_subdiv_1'' probs_subdiv_1) (\<lambda>p1.
     bind_err (read_local ''probs_subdiv_2'' probs_subdiv_2) (\<lambda>p2.
     let combined_probs = fc_frame nets p1 p2;
         preds = \<lparr>classes = map (\<lambda>p. if 1 / 2 \<le> p then 1 else 0) combined_probs,
                  probabilities = combined_probs,
                  onset_probabilities = p2,
                  logits = combined_probs\<rparr>
     in
     if mode = PREDICT
     then Inr \<lparr>es_mode = mode, es_predictions = preds, es_loss = None, es_train_op = False\<rparr>
     else
     bind_err
       (if use_rnn
        then bind_err (read_local ''label_frames'' label_frames) (\<lambda>lf.
             bind_err (log_loss lf p1 clip_norm) (\<lambda>individual_loss_subdiv_1.
             bind_err (read_local ''label_onset'' label_onset) (\<lambda>lo.
             bind_err (log_loss lo p2 clip_norm) (\<lambda>individual_loss_subdiv_2.
             bind_err (log_loss combined_probs lf clip_norm) (\<lambda>frame_losses.
             Inr (Some individual_loss_subdiv_1, Some individual_loss_subdiv_2,
                  Some frame_losses))))))
        else bind_err (log_loss (concat (case labels of None \<Rightarrow> [] | Some ls \<Rightarrow> ls))
                         (clip_by_value (probabilities preds) clip_norm (1 - clip_norm)) 0)
               (\<lambda>individual_loss. Inr (None, None, None)))
       (\<lambda>(individual_loss_subdiv_1, individual_loss_subdiv_2, frame_losses).
     bind_err (read_local ''individual_loss_subdiv_1'' individual_loss_subdiv_1) (\<lambda>l1.
     bind_err (read_local ''individual_loss_subdiv_2'' individual_loss_subdiv_2) (\<lambda>l2.
     bind_err (read_local ''frame_losses'' frame_losses) (\<lambda>l3.
     let losses = [reduce_mean l1, reduce_mean l2, reduce_mean l3];
         loss = sum_list losses
     in Inr \<lparr>es_mode = mode, es_predictions = preds, es_loss = Some loss,
              es_train_op = (mode = TRAIN)\<rparr>)))))))"

text \<open>
  The total loss as the spec states it, with the labels as \<open>y\<close> and the predictions as
  \<open>p\<close> in each of the three terms \<open>- y log(p + \<epsilon>) - (1 - y) log(1 - p + \<epsilon>)\<close>.
\<close>

definition spec_log_loss :: "real \<Rightarrow> tensor \<Rightarrow> tensor \<Rightarrow> tensor" where
  "spec_log_loss eps ys ps =
     map2 (\<lambda>y p. - (y * ln (p + eps)) - (1 - y) * ln (1 - p + eps)) ys ps"

definition spec_total_loss ::
  "real \<Rightarrow> tensor \<Rightarrow> tensor \<Rightarrow> tensor \<Rightarrow> tensor \<Rightarrow> tensor \<Rightarrow> real" where
  "spec_total_loss eps label_frames label_onset p_frames p_onsets p_combined =
     reduce_mean (spec_log_loss eps label_frames p_frames)
   + reduce_mean (spec_log_loss eps label_onset p_onsets)
   + reduce_mean (spec_log_loss eps label_frames p_combined)"

text \<open>Networks with constant outputs, for a concrete call.\<close>

definition const_networks :: networks where
  "const_networks =
     \<lparr>resnet_rnn_frames = (\<lambda>features is_training. [0]),
      resnet_rnn_onsets = (\<lambda>features is_training. [0]),
      resnet = (\<lambda>features is_training. [0]),
      fc_frame = (\<lambda>a b. [1 / 2])\<rparr>"

section \<open>Proofs: ground truth of \<open>midi_to_groundtruth\<close>\<close>

lemma bind_err_simps [simp]:
  "bind_err (Inl e) f = Inl e" "bind_err (Inr x) f = f x"
  by (simp_all add: bind_err_def)

lemma np_round_nonneg: "0 \<le> x \<Longrightarrow> 0 \<le> np_round x"
  by (auto simp: np_round_def Let_def)

lemma length_set_rows_col [simp]: "length (set_rows_col lo hi c v M) = length M"
  by (simp add: set_rows_col_def)

lemma nth_set_rows_col:
  "r < length M \<Longrightarrow> set_rows_col lo hi c v M ! r = (if lo \<le> r \<and> r < hi then (M ! r)[c := v] else M ! r)"
  by (simp add: set_rows_col_def)

lemma has_shape_set_rows_col: "has_shape n m M \<Longrightarrow> has_shape n m (set_rows_col lo hi c v M)"
  by (auto simp: has_shape_def set_rows_col_def)

lemma has_shape_zeros: "has_shape n m (np_zeros n m)"
  by (simp add: has_shape_def np_zeros_def)

lemma has_shape_nth: "has_shape n m M \<Longrightarrow> r < n \<Longrightarrow> length (M ! r) = m"
  by (simp add: has_shape_def)

lemma cell_set_rows_col:
  "has_shape n m M \<Longrightarrow> r < n \<Longrightarrow> c' < m \<Longrightarrow>
   set_rows_col lo hi c v M ! r ! c' = (if lo \<le> r \<and> r < hi \<and> c' = c then v else M ! r ! c')"
  by (auto simp: has_shape_def nth_set_rows_col nth_list_update)

lemma slice_rows:
  "0 \<le> s \<Longrightarrow> 0 \<le> e \<Longrightarrow> r < n \<Longrightarrow>
   (slice_bound n s \<le> r \<and> r < slice_bound n e) = (s \<le> int r \<and> int r < e)"
  by (auto simp: slice_bound_def)

lemma py_index_in_range: "0 \<le> i \<Longrightarrow> i < int n \<Longrightarrow> py_index n i = Inr (nat i)"
  by (simp add: py_index_def)

lemma assign_slice_col_ok:
  assumes "has_shape n m M" "0 \<le> col" "col < int m" "0 \<le> s" "0 \<le> e"
  shows "\<exists>M'. assign_slice_col m s e col v M = Inr M' \<and> has_shape n m M' \<and>
      (\<forall>r<n. \<forall>c<m. M' ! r ! c = (if s \<le> int r \<and> int r < e \<and> int c = col then v else M ! r ! c))"
proof -
  let ?M' = "set_rows_col (slice_bound (length M) s) (slice_bound (length M) e) (nat col) v M"
  have len: "length M = n" using assms(1) by (simp add: has_shape_def)
  have "assign_slice_col m s e col v M = Inr ?M'"
    using assms by (simp add: assign_slice_col_def py_index_in_range)
  moreover have "has_shape n m ?M'" using assms(1) by (rule has_shape_set_rows_col)
  moreover have "\<forall>r<n. \<forall>c<m. ?M' ! r ! c = (if s \<le> int r \<and> int r < e \<and> int c = col then v else M ! r ! c)"
  proof (intro allI impI)
    fix r c assume rc: "r < n" "c < m"
    have rows: "(slice_bound n s \<le> r \<and> r < slice_bound n e) = (s \<le> int r \<and> int r < e)"
      using assms(4,5) rc(1) by (rule slice_rows)
    have col: "(c = nat col) = (int c = col)" using assms(2) by auto
    have "?M' ! r ! c = (if (slice_bound n s \<le> r \<and> r < slice_bound n e) \<and> c = nat col then v else M ! r ! c)"
      using assms(1) rc by (simp add: cell_set_rows_col len)
    then show "?M' ! r ! c = (if s \<le> int r \<and> int r < e \<and> int c = col then v else M ! r ! c)"
      by (simp only: rows col conj_assoc)
  qed
  ultimately show ?thesis by blast
qed

lemma note_label_range:
  "piano_note nt \<Longrightarrow> 0 \<le> note_label ch nt \<and> note_label ch nt < int (n_cols ch) \<and> note_label ch nt < 88"
  by (cases nt) (auto simp: piano_note_def note_label_def n_cols_def)

lemma note_frames_nonneg:
  "0 < dt \<Longrightarrow> piano_note nt \<Longrightarrow> 0 \<le> note_start dt nt \<and> 0 \<le> note_end dt nt"
  by (cases nt) (auto simp: piano_note_def note_start_def note_end_def intro!: np_round_nonneg)

lemma groundtruth_note_unfold:
  "dt \<noteq> 0 \<Longrightarrow> groundtruth_note dt ch nt (Fg, Og) =
     bind_err (assign_slice_col (n_cols ch) (note_start dt nt) (note_end dt nt) (note_label ch nt) 1 Fg)
       (\<lambda>Fg'. if note_start dt nt + 2 \<le> note_end dt nt
          then bind_err (assign_slice_col 88 (note_start dt nt) (note_start dt nt + 2) (note_label ch nt) 1 Og)
                 (\<lambda>Og'. Inr (Fg', Og'))
          else Inr (Fg', Og))"
  by (cases nt) (simp add: frame_of_def note_start_def note_end_def note_label_def n_cols_def Let_def cong: if_cong)

lemma groundtruth_note_ok:
  assumes dt: "0 < dt" and pn: "piano_note nt"
    and Fg: "has_shape n (n_cols ch) Fg" and Og: "has_shape n 88 Og"
  shows "\<exists>Fg' Og'. groundtruth_note dt ch nt (Fg, Og) = Inr (Fg', Og')
     \<and> has_shape n (n_cols ch) Fg' \<and> has_shape n 88 Og'
     \<and> (\<forall>r<n. \<forall>c<n_cols ch. Fg' ! r ! c =
           (if note_start dt nt \<le> int r \<and> int r < note_end dt nt \<and> int c = note_label ch nt
            then 1 else Fg ! r ! c))
     \<and> (\<forall>r<n. \<forall>c<88. Og' ! r ! c =
           (if note_start dt nt + 2 \<le> note_end dt nt \<and> note_start dt nt \<le> int r
               \<and> int r < note_start dt nt + 2 \<and> int c = note_label ch nt
            then 1 else Og ! r ! c))"
proof -
  let ?s = "note_start dt nt" and ?e = "note_end dt nt" and ?l = "note_label ch nt"
  have l: "0 \<le> ?l" "?l < int (n_cols ch)" "?l < int 88" using note_label_range[OF pn, of ch] by auto
  have se: "0 \<le> ?s" "0 \<le> ?e" using note_frames_nonneg[OF dt pn] by auto
  obtain Fg' where Fg': "assign_slice_col (n_cols ch) ?s ?e ?l 1 Fg = Inr Fg'" "has_shape n (n_cols ch) Fg'"
    "\<forall>r<n. \<forall>c<n_cols ch. Fg' ! r ! c = (if ?s \<le> int r \<and> int r < ?e \<and> int c = ?l then 1 else Fg ! r ! c)"
    using assign_slice_col_ok[OF Fg l(1,2) se, of 1] by blast
  have unf: "groundtruth_note dt ch nt (Fg, Og) =
      (if ?s + 2 \<le> ?e
       then bind_err (assign_slice_col 88 ?s (?s + 2) ?l 1 Og) (\<lambda>Og'. Inr (Fg', Og'))
       else Inr (Fg', Og))"
    using dt by (simp add: groundtruth_note_unfold Fg'(1))
  show ?thesis
  proof (cases "?s + 2 \<le> ?e")
    case True
    have s2: "0 \<le> ?s + 2" using se by simp
    obtain Og' where Og': "assign_slice_col 88 ?s (?s + 2) ?l 1 Og = Inr Og'" "has_shape n 88 Og'"
      "\<forall>r<n. \<forall>c<88. Og' ! r ! c = (if ?s \<le> int r \<and> int r < ?s + 2 \<and> int c = ?l then 1 else Og ! r ! c)"
      using assign_slice_col_ok[OF Og l(1,3) se(1) s2, of 1] by blast
    have "groundtruth_note dt ch nt (Fg, Og) = Inr (Fg', Og')" using unf True Og'(1) by simp
    moreover have "\<forall>r<n. \<forall>c<88. Og' ! r ! c =
           (if ?s + 2 \<le> ?e \<and> ?s \<le> int r \<and> int r < ?s + 2 \<and> int c = ?l then 1 else Og ! r ! c)"
      using Og'(3) True by simp
    ultimately show ?thesis using Fg'(2,3) Og'(2) by blast
  next
    case False
    have "groundtruth_note dt ch nt (Fg, Og) = Inr (Fg', Og)" using unf False by simp
    moreover have "\<forall>r<n. \<forall>c<88. Og ! r ! c =
           (if ?s + 2 \<le> ?e \<and> ?s \<le> int r \<and> int r < ?s + 2 \<and> int c = ?l then 1 else Og ! r ! c)"
      using False by simp
    ultimately show ?thesis using Fg'(2,3) Og by blast
  qed
qed

lemma groundtruth_loop:
  assumes dt: "0 < dt"
  shows "\<forall>nt \<in> set ns. piano_note nt \<Longrightarrow> has_shape n (n_cols ch) Fg \<Longrightarrow> has_shape n 88 Og \<Longrightarrow>
    \<exists>Fg' Og'. for_each (groundtruth_note dt ch) ns (Fg, Og) = Inr (Fg', Og')
     \<and> has_shape n (n_cols ch) Fg' \<and> has_shape n 88 Og'
     \<and> (\<forall>r<n. \<forall>c<n_cols ch. Fg' ! r ! c = (if sounding dt ch ns r c then 1 else Fg ! r ! c))
     \<and> (\<forall>r<n. \<forall>c<88. Og' ! r ! c = (if onsetting dt ch ns r c then 1 else Og ! r ! c))"
proof (induction ns arbitrary: Fg Og)
  case Nil
  then show ?case by (simp add: sounding_def onsetting_def)
next
  case (Cons x xs)
  have px: "piano_note x" and pxs: "\<forall>nt \<in> set xs. piano_note nt" using Cons.prems(1) by auto
  obtain Fg1 Og1 where step: "groundtruth_note dt ch x (Fg, Og) = Inr (Fg1, Og1)"
    and sh1: "has_shape n (n_cols ch) Fg1" "has_shape n 88 Og1"
    and g1: "\<forall>r<n. \<forall>c<n_cols ch. Fg1 ! r ! c =
           (if note_start dt x \<le> int r \<and> int r < note_end dt x \<and> int c = note_label ch x
            then 1 else Fg ! r ! c)"
    and o1: "\<forall>r<n. \<forall>c<88. Og1 ! r ! c =
           (if note_start dt x + 2 \<le> note_end dt x \<and> note_start dt x \<le> int r
               \<and> int r < note_start dt x + 2 \<and> int c = note_label ch x
            then 1 else Og ! r ! c)"
    using groundtruth_note_ok[OF dt px Cons.prems(2,3)] by blast
  obtain Fg' Og' where rest: "for_each (groundtruth_note dt ch) xs (Fg1, Og1) = Inr (Fg', Og')"
    and sh: "has_shape n (n_cols ch) Fg'" "has_shape n 88 Og'"
    and g: "\<forall>r<n. \<forall>c<n_cols ch. Fg' ! r ! c = (if sounding dt ch xs r c then 1 else Fg1 ! r ! c)"
    and o: "\<forall>r<n. \<forall>c<88. Og' ! r ! c = (if onsetting dt ch xs r c then 1 else Og1 ! r ! c)"
    using Cons.IH[OF pxs sh1] by blast
  have "for_each (groundtruth_note dt ch) (x # xs) (Fg, Og) = Inr (Fg', Og')"
    using step rest by simp
  moreover have "\<forall>r<n. \<forall>c<n_cols ch. Fg' ! r ! c = (if sounding dt ch (x # xs) r c then 1 else Fg ! r ! c)"
    using g g1 by (auto simp: sounding_def)
  moreover have "\<forall>r<n. \<forall>c<88. Og' ! r ! c = (if onsetting dt ch (x # xs) r c then 1 else Og ! r ! c)"
    using o o1 by (auto simp: onsetting_def)
  ultimately show ?case using sh by blast
qed

lemma groundtruth_from_zeros:
  assumes "0 < dt" and "\<forall>nt \<in> set ns. piano_note nt"
  shows "\<exists>frame_gt onset_gt.
      midi_to_groundtruth ns dt n_frames is_chroma = Inr (frame_gt, onset_gt)
    \<and> has_shape n_frames (n_cols is_chroma) frame_gt \<and> has_shape n_frames 88 onset_gt
    \<and> (\<forall>r<n_frames. \<forall>c<n_cols is_chroma.
          frame_gt ! r ! c = (if sounding dt is_chroma ns r c then 1 else 0))
    \<and> (\<forall>r<n_frames. \<forall>c<88.
          onset_gt ! r ! c = (if onsetting dt is_chroma ns r c then 1 else 0))"
proof -
  let ?Z = "np_zeros n_frames (n_cols is_chroma) :: int list list"
  let ?Z88 = "np_zeros n_frames 88 :: int list list"
  obtain Fg Og where res: "for_each (groundtruth_note dt is_chroma) ns (?Z, ?Z88) = Inr (Fg, Og)"
    and sh: "has_shape n_frames (n_cols is_chroma) Fg" "has_shape n_frames 88 Og"
    and g: "\<forall>r<n_frames. \<forall>c<n_cols is_chroma. Fg ! r ! c = (if sounding dt is_chroma ns r c then 1 else ?Z ! r ! c)"
    and o: "\<forall>r<n_frames. \<forall>c<88. Og ! r ! c = (if onsetting dt is_chroma ns r c then 1 else ?Z88 ! r ! c)"
    using groundtruth_loop[OF assms(1) assms(2) has_shape_zeros has_shape_zeros] by blast
  have "midi_to_groundtruth ns dt n_frames is_chroma = Inr (Fg, Og)"
    using res by (simp add: midi_to_groundtruth_def n_cols_def)
  moreover have "\<forall>r<n_frames. \<forall>c<n_cols is_chroma. Fg ! r ! c = (if sounding dt is_chroma ns r c then 1 else 0)"
    using g by (simp add: np_zeros_def)
  moreover have "\<forall>r<n_frames. \<forall>c<88. Og ! r ! c = (if onsetting dt is_chroma ns r c then 1 else 0)"
    using o by (simp add: np_zeros_def)
  ultimately show ?thesis using sh by blast
qed

lemma np_round_of_int [simp]: "np_round (of_int k) = k"
  by (simp add: np_round_def)

lemma single_note_frames:
  "note_start (1 / 100) (0, 60, 1 / 2, v, ch) = 0"
  "note_end (1 / 100) (0, 60, 1 / 2, v, ch) = 50"
  "note_label False (0, 60, 1 / 2, v, ch) = 39"
proof -
  have "np_round (of_int 50) = 50" by (rule np_round_of_int)
  then show "note_end (1 / 100) (0, 60, 1 / 2, v, ch) = 50" by (simp add: note_end_def)
  have "np_round (of_int 0) = 0" by (rule np_round_of_int)
  then show "note_start (1 / 100) (0, 60, 1 / 2, v, ch) = 0" by (simp add: note_start_def)
  show "note_label False (0, 60, 1 / 2, v, ch) = 39" by (simp add: note_label_def py_int_def)
qed

lemma single_note_example:
  "\<exists>frame_gt onset_gt.
      midi_to_groundtruth [(0, 60, 1 / 2, v, ch)] (1 / 100) n_frames False = Inr (frame_gt, onset_gt)
    \<and> (\<forall>r<n_frames. \<forall>c<88. frame_gt ! r ! c = (if r < 50 \<and> c = 39 then 1 else 0))
    \<and> (\<forall>r<n_frames. \<forall>c<88. onset_gt ! r ! c = (if r < 2 \<and> c = 39 then 1 else 0))"
proof -
  let ?ns = "[(0, 60, 1 / 2, v, ch)] :: midi_note list"
  have p: "\<forall>nt \<in> set ?ns. piano_note nt" by (simp add: piano_note_def py_int_def)
  have s: "sounding (1 / 100) False ?ns r c = (r < 50 \<and> c = 39)" for r c
    by (auto simp: sounding_def single_note_frames)
  have o: "onsetting (1 / 100) False ?ns r c = (r < 2 \<and> c = 39)" for r c
    by (auto simp: onsetting_def single_note_frames)
  have dt: "(0::rat) < 1 / 100" by simp
  from groundtruth_from_zeros[OF dt p, of n_frames False]
  obtain frame_gt onset_gt where
    r: "midi_to_groundtruth ?ns (1 / 100) n_frames False = Inr (frame_gt, onset_gt)"
    and g: "\<forall>r<n_frames. \<forall>c<n_cols False. frame_gt ! r ! c = (if sounding (1 / 100) False ?ns r c then 1 else 0)"
    and og: "\<forall>r<n_frames. \<forall>c<88. onset_gt ! r ! c = (if onsetting (1 / 100) False ?ns r c then 1 else 0)"
    by blast
  have "\<forall>r<n_frames. \<forall>c<88. frame_gt ! r ! c = (if r < 50 \<and> c = 39 then 1 else 0)"
    using g unfolding s n_cols_def by simp
  moreover have "\<forall>r<n_frames. \<forall>c<88. onset_gt ! r ! c = (if r < 2 \<and> c = 39 then 1 else 0)"
    using og unfolding o by simp
  ultimately show ?thesis using r by blast
qed

text \<open>
  Claim C5. For notes of the piano range with non-negative times and a positive \<open>dt\<close>,
  \<open>midi_to_groundtruth\<close> returns two arrays of \<open>n_frames\<close> rows. The frame array is
  1 exactly at the cells (r, label) with frame\_start \<le> r < frame\_end for some note,
  where frame\_start = round(onset / dt), frame\_end = round((onset + duration) / dt) and
  label = pitch - 21 (taken modulo 12 for chroma), and 0 elsewhere. The onset array is 1
  exactly at the cells (r, label) with frame\_start \<le> r < frame\_start + 2 for some note
  with frame\_start + 2 \<le> frame\_end, and 0 elsewhere. For the single note with onset 0,
  duration 0.5 and pitch 60 at 100 frames per second, the frame array is 1 on rows
  [0, 50) of column 39 and the onset array is 1 on rows [0, 2) of column 39.
\<close>

theorem midi_to_groundtruth_marks:
  assumes "0 < dt" and "\<forall>nt \<in> set ns. piano_note nt"
  shows "(\<exists>frame_gt onset_gt.
      midi_to_groundtruth ns dt n_frames is_chroma = Inr (frame_gt, onset_gt)
    \<and> has_shape n_frames (n_cols is_chroma) frame_gt \<and> has_shape n_frames 88 onset_gt
    \<and> (\<forall>r<n_frames. \<forall>c<n_cols is_chroma.
          frame_gt ! r ! c = (if sounding dt is_chroma ns r c then 1 else 0))
    \<and> (\<forall>r<n_frames. \<forall>c<88.
          onset_gt ! r ! c = (if onsetting dt is_chroma ns r c then 1 else 0)))
  \<and> (\<forall>m v ch. \<exists>frame_gt onset_gt.
      midi_to_groundtruth [(0, 60, 1 / 2, v, ch)] (1 / 100) m False = Inr (frame_gt, onset_gt)
    \<and> (\<forall>r<m. \<forall>c<88. frame_gt ! r ! c = (if r < 50 \<and> c = 39 then 1 else 0))
    \<and> (\<forall>r<m. \<forall>c<88. onset_gt ! r ! c = (if r < 2 \<and> c = 39 then 1 else 0)))"
  using groundtruth_from_zeros[OF assms] single_note_example by blast

theorem midi_to_groundtruth_marks_witness:
  "(0::rat) < 1 / 100 \<and> piano_note (0, 60, 1 / 2, 100, 0)
   \<and> (\<exists>frame_gt onset_gt.
        midi_to_groundtruth [(0, 60, 1 / 2, 100, 0)] (1 / 100) 3 False = Inr (frame_gt, onset_gt)
      \<and> frame_gt ! 2 ! 39 = 1 \<and> frame_gt ! 2 ! 40 = 0 \<and> onset_gt ! 1 ! 39 = 1 \<and> onset_gt ! 2 ! 39 = 0)"
proof -
  let ?ns = "[(0, 60, 1 / 2, 100, 0)] :: midi_note list"
  have dt: "(0::rat) < 1 / 100" by simp
  have p: "\<forall>nt \<in> set ?ns. piano_note nt" by (simp add: piano_note_def py_int_def)
  have s: "sounding (1 / 100) False ?ns r c = (r < 50 \<and> c = 39)" for r c
    by (auto simp: sounding_def single_note_frames)
  have o: "onsetting (1 / 100) False ?ns r c = (r < 2 \<and> c = 39)" for r c
    by (auto simp: onsetting_def single_note_frames)
  from midi_to_groundtruth_marks[OF dt p, of 3 False]
  obtain frame_gt onset_gt where
    r: "midi_to_groundtruth ?ns (1 / 100) 3 False = Inr (frame_gt, onset_gt)"
    and g: "\<forall>r<3. \<forall>c<n_cols False. frame_gt ! r ! c = (if sounding (1 / 100) False ?ns r c then 1 else 0)"
    and og: "\<forall>r<3. \<forall>c<88. onset_gt ! r ! c = (if onsetting (1 / 100) False ?ns r c then 1 else 0)"
    by blast
  have "frame_gt ! 2 ! 39 = 1" "frame_gt ! 2 ! 40 = 0" using g by (simp_all add: s n_cols_def)
  moreover have "onset_gt ! 1 ! 39 = 1" "onset_gt ! 2 ! 39 = 0" using og by (simp_all add: o)
  moreover have "piano_note (0, 60, 1 / 2, 100, 0)" using p by simp
  ultimately show ?thesis using dt r by blast
qed

section \<open>Proofs: \<open>midi_to_triple_groundtruth\<close>\<close>

lemma assign_cell_error: "assign_cell m r c v M = Inl e \<Longrightarrow> e = IndexError"
  by (auto simp: assign_cell_def py_index_def bind_err_def split: if_splits sum.splits)

lemma assign_cell_in_range:
  "0 \<le> r \<Longrightarrow> r < int (length M) \<Longrightarrow> 0 \<le> c \<Longrightarrow> c < int m \<Longrightarrow>
   assign_cell m r c v M = Inr (M[nat r := (M ! nat r)[nat c := v]])"
  by (simp add: assign_cell_def py_index_in_range)

lemma assign_cell_out_of_range:
  "int (length M) \<le> r \<Longrightarrow> assign_cell m r c v M = Inl IndexError"
  by (simp add: assign_cell_def py_index_def)

lemma has_shape_update:
  assumes "has_shape n m M"
  shows "has_shape n m (M[r := (M ! r)[c := v]])"
proof (cases "r < length M")
  case True
  then show ?thesis using assms
    by (auto simp: has_shape_def dest!: set_update_subset_insert[THEN subsetD])
next
  case False
  then have "M[r := (M ! r)[c := v]] = M" by (intro list_update_beyond) simp
  then show ?thesis using assms by (simp only:)
qed

lemma onset_plus_step_error:
  "onset_plus_step s e l i P = Inl err \<Longrightarrow> err = IndexError"
  by (auto simp: onset_plus_step_def bind_err_def split: if_splits sum.splits dest: assign_cell_error)

lemma onset_plus_loop_error:
  "for_each (onset_plus_step s e l) is P = Inl err \<Longrightarrow> err = IndexError"
proof (induction "is" arbitrary: P)
  case Nil then show ?case by simp
next
  case (Cons i "is")
  show ?case
  proof (cases "onset_plus_step s e l i P")
    case (Inl a)
    then show ?thesis using Cons.prems onset_plus_step_error by auto
  next
    case (Inr P')
    then show ?thesis using Cons by auto
  qed
qed

lemma onset_plus_step_ok:
  assumes "shapes n P" "i < length P" "0 \<le> s" "e < int n" "0 \<le> l" "l < 88"
  shows "\<exists>P'. onset_plus_step s e l i P = Inr P' \<and> shapes n P' \<and> length P' = length P"
proof (cases "s + int i + 1 < e")
  case True
  have sh: "has_shape n 88 (P ! i)" using assms(1,2) by (simp add: shapes_def)
  then have len: "length (P ! i) = n" by (simp add: has_shape_def)
  have "assign_cell 88 (s + int i + 1) l 1 (P ! i)
      = Inr ((P ! i)[nat (s + int i + 1) := ((P ! i) ! nat (s + int i + 1))[nat l := 1]])"
    using True assms by (intro assign_cell_in_range) (auto simp: len)
  moreover have "shapes n (P[i := (P ! i)[nat (s + int i + 1) := ((P ! i) ! nat (s + int i + 1))[nat l := 1]]])"
    using assms(1) has_shape_update[OF sh]
    by (auto simp: shapes_def dest!: set_update_subset_insert[THEN subsetD])
  ultimately show ?thesis using True by (simp add: onset_plus_step_def)
next
  case False
  then show ?thesis using assms(1) by (simp add: onset_plus_step_def)
qed

lemma onset_plus_loop_ok:
  assumes "0 \<le> s" "e < int n" "0 \<le> l" "l < 88"
  shows "shapes n P \<Longrightarrow> \<forall>i \<in> set is. i < length P \<Longrightarrow>
    \<exists>P'. for_each (onset_plus_step s e l) is P = Inr P' \<and> shapes n P' \<and> length P' = length P"
proof (induction "is" arbitrary: P)
  case Nil then show ?case by simp
next
  case (Cons i "is")
  obtain P1 where P1: "onset_plus_step s e l i P = Inr P1" "shapes n P1" "length P1 = length P"
    using onset_plus_step_ok[OF Cons.prems(1) _ assms] Cons.prems(2) by auto
  have "\<forall>i \<in> set is. i < length P1" using Cons.prems(2) P1(3) by simp
  from Cons.IH[OF P1(2) this] P1 show ?case by auto
qed

lemma np_round_mono: "x \<le> y \<Longrightarrow> np_round x \<le> np_round y"
proof -
  assume xy: "x \<le> y"
  have fl: "\<lfloor>x\<rfloor> \<le> \<lfloor>y\<rfloor>" using xy by (rule floor_mono)
  have bx: "np_round x \<le> \<lfloor>x\<rfloor> + 1" by (simp add: np_round_def Let_def)
  have fy: "\<lfloor>y\<rfloor> \<le> np_round y" by (simp add: np_round_def Let_def)
  show ?thesis
  proof (cases "\<lfloor>x\<rfloor> < \<lfloor>y\<rfloor>")
    case True
    then show ?thesis using bx fy by linarith
  next
    case False
    then have eq: "\<lfloor>x\<rfloor> = \<lfloor>y\<rfloor>" using fl by simp
    then have "x - of_int \<lfloor>x\<rfloor> \<le> y - of_int \<lfloor>y\<rfloor>" using xy by simp
    then show ?thesis using eq by (auto simp: np_round_def Let_def)
  qed
qed

lemma note_start_le_end: "0 < dt \<Longrightarrow> piano_note nt \<Longrightarrow> note_start dt nt \<le> note_end dt nt"
  by (cases nt) (auto simp: piano_note_def note_start_def note_end_def divide_right_mono intro!: np_round_mono)

lemma triple_note_unfold:
  "dt \<noteq> 0 \<Longrightarrow> triple_note dt k nt (Fg, Og, Off, P) =
     bind_err (assign_slice_col 88 (note_start dt nt) (note_end dt nt) (note_label False nt) 1 Fg) (\<lambda>Fg'.
     bind_err (assign_cell 88 (note_start dt nt) (note_label False nt) 1 Og) (\<lambda>Og'.
     bind_err (for_each (onset_plus_step (note_start dt nt) (note_end dt nt) (note_label False nt))
                 [0..<nat k] P) (\<lambda>P'.
     bind_err (assign_cell 88 (note_end dt nt) (note_label False nt) 1 Off) (\<lambda>Off'.
     Inr (Fg', Og', Off', P')))))"
  by (cases nt) (simp add: frame_of_def note_start_def note_end_def note_label_def Let_def)

lemma triple_note_ok:
  assumes dt: "0 < dt" and pn: "piano_note nt" and e: "note_end dt nt < int n"
    and ok: "triple_ok n k (Fg, Og, Off, P)"
  shows "\<exists>Fg' P'. triple_note dt k nt (Fg, Og, Off, P) =
        Inr (Fg', Og[nat (note_start dt nt) := (Og ! nat (note_start dt nt))[nat (note_label False nt) := 1]],
             Off[nat (note_end dt nt) := (Off ! nat (note_end dt nt))[nat (note_label False nt) := 1]], P')
      \<and> triple_ok n k (Fg', Og[nat (note_start dt nt) := (Og ! nat (note_start dt nt))[nat (note_label False nt) := 1]],
             Off[nat (note_end dt nt) := (Off ! nat (note_end dt nt))[nat (note_label False nt) := 1]], P')"
proof -
  let ?s = "note_start dt nt" and ?e = "note_end dt nt" and ?l = "note_label False nt"
  have sh: "has_shape n 88 Fg" "has_shape n 88 Og" "has_shape n 88 Off" "shapes n P" "length P = nat k"
    using ok by (simp_all add: triple_ok_def)
  have l: "0 \<le> ?l" "?l < int 88" using note_label_range[OF pn, of False] by auto
  have se: "0 \<le> ?s" "0 \<le> ?e" using note_frames_nonneg[OF dt pn] by auto
  have s: "?s < int n" using note_start_le_end[OF dt pn] e by simp
  have len: "length Og = n" "length Off = n" using sh by (simp_all add: has_shape_def)
  obtain Fg' where Fg': "assign_slice_col 88 ?s ?e ?l 1 Fg = Inr Fg'" "has_shape n 88 Fg'"
    using assign_slice_col_ok[OF sh(1) l se, of 1] by blast
  have og: "assign_cell 88 ?s ?l 1 Og = Inr (Og[nat ?s := (Og ! nat ?s)[nat ?l := 1]])"
    using se s l by (intro assign_cell_in_range) (simp_all add: len)
  have off: "assign_cell 88 ?e ?l 1 Off = Inr (Off[nat ?e := (Off ! nat ?e)[nat ?l := 1]])"
    using se e l by (intro assign_cell_in_range) (simp_all add: len)
  have "\<forall>i \<in> set [0..<nat k]. i < length P" using sh(5) by simp
  then obtain P' where P': "for_each (onset_plus_step ?s ?e ?l) [0..<nat k] P = Inr P'"
      "shapes n P'" "length P' = length P"
    using onset_plus_loop_ok[OF se(1) e l(1) _ sh(4), of "[0..<nat k]"] l(2) by auto
  have "triple_note dt k nt (Fg, Og, Off, P) =
        Inr (Fg', Og[nat ?s := (Og ! nat ?s)[nat ?l := 1]], Off[nat ?e := (Off ! nat ?e)[nat ?l := 1]], P')"
    using dt by (simp add: triple_note_unfold Fg'(1) og off P'(1))
  moreover have "triple_ok n k (Fg', Og[nat ?s := (Og ! nat ?s)[nat ?l := 1]],
        Off[nat ?e := (Off ! nat ?e)[nat ?l := 1]], P')"
    using Fg'(2) sh(2,3,5) P'(2,3) by (simp add: triple_ok_def has_shape_update)
  ultimately show ?thesis by blast
qed

lemma triple_note_fail:
  assumes dt: "0 < dt" and pn: "piano_note nt" and e: "int n \<le> note_end dt nt"
    and ok: "triple_ok n k (Fg, Og, Off, P)"
  shows "triple_note dt k nt (Fg, Og, Off, P) = Inl IndexError"
proof -
  let ?s = "note_start dt nt" and ?e = "note_end dt nt" and ?l = "note_label False nt"
  have sh: "has_shape n 88 Fg" "has_shape n 88 Off" using ok by (simp_all add: triple_ok_def)
  have l: "0 \<le> ?l" "?l < int 88" using note_label_range[OF pn, of False] by auto
  have se: "0 \<le> ?s" "0 \<le> ?e" using note_frames_nonneg[OF dt pn] by auto
  obtain Fg' where Fg': "assign_slice_col 88 ?s ?e ?l 1 Fg = Inr Fg'"
    using assign_slice_col_ok[OF sh(1) l se, of 1] by blast
  have off: "assign_cell 88 ?e ?l 1 Off = Inl IndexError"
    using e sh(2) by (intro assign_cell_out_of_range) (simp add: has_shape_def)
  show ?thesis
  proof (cases "assign_cell 88 ?s ?l 1 Og")
    case (Inl err)
    then show ?thesis using dt assign_cell_error[OF Inl] by (simp add: triple_note_unfold Fg')
  next
    case (Inr Og')
    show ?thesis
    proof (cases "for_each (onset_plus_step ?s ?e ?l) [0..<nat k] P")
      case (Inl err)
      then show ?thesis using dt onset_plus_loop_error[OF Inl] Inr by (simp add: triple_note_unfold Fg')
    next
      case (Inr P')
      then show ?thesis using dt \<open>assign_cell 88 ?s ?l 1 Og = Inr Og'\<close> off
        by (simp add: triple_note_unfold Fg')
    qed
  qed
qed

lemma triple_loop_ok:
  assumes dt: "0 < dt"
  shows "\<forall>nt \<in> set ns. piano_note nt \<and> note_end dt nt < int n \<Longrightarrow> triple_ok n k st \<Longrightarrow>
     \<exists>st'. for_each (triple_note dt k) ns st = Inr st' \<and> triple_ok n k st'"
proof (induction ns arbitrary: st)
  case Nil
  then show ?case by simp
next
  case (Cons x xs)
  obtain Fg Og Off P where st: "st = (Fg, Og, Off, P)" by (cases st) auto
  have x: "piano_note x" "note_end dt x < int n" using Cons.prems(1) by auto
  obtain st1 where st1: "triple_note dt k x st = Inr st1" "triple_ok n k st1"
    using triple_note_ok[OF dt x] Cons.prems(2) unfolding st by blast
  have "\<forall>nt \<in> set xs. piano_note nt \<and> note_end dt nt < int n" using Cons.prems(1) by simp
  from Cons.IH[OF this st1(2)] st1(1) show ?case by simp
qed

lemma triple_loop_fail:
  assumes dt: "0 < dt"
  shows "\<forall>nt \<in> set ns. piano_note nt \<Longrightarrow> \<exists>nt \<in> set ns. int n \<le> note_end dt nt \<Longrightarrow>
     triple_ok n k st \<Longrightarrow> for_each (triple_note dt k) ns st = Inl IndexError"
proof (induction ns arbitrary: st)
  case Nil
  then show ?case by simp
next
  case (Cons x xs)
  obtain Fg Og Off P where st: "st = (Fg, Og, Off, P)" by (cases st) auto
  have px: "piano_note x" using Cons.prems(1) by simp
  show ?case
  proof (cases "int n \<le> note_end dt x")
    case True
    have "triple_note dt k x st = Inl IndexError"
      using triple_note_fail[OF dt px True] Cons.prems(3) unfolding st by blast
    then show ?thesis by simp
  next
    case False
    then have e: "note_end dt x < int n" by simp
    obtain st1 where st1: "triple_note dt k x st = Inr st1" "triple_ok n k st1"
      using triple_note_ok[OF dt px e] Cons.prems(3) unfolding st by blast
    have "\<forall>nt \<in> set xs. piano_note nt" using Cons.prems(1) by simp
    moreover have "\<exists>nt \<in> set xs. int n \<le> note_end dt nt" using Cons.prems(2) False by auto
    ultimately have "for_each (triple_note dt k) xs st1 = Inl IndexError"
      using Cons.IH st1(2) by blast
    then show ?thesis using st1(1) by simp
  qed
qed

lemma triple_ok_zeros:
  "triple_ok n k (np_zeros n 88, np_zeros n 88, np_zeros n 88, replicate (nat k) (np_zeros n 88))"
  by (simp add: triple_ok_def has_shape_zeros shapes_def)

lemma cell_update:
  assumes "has_shape n m M" "r < n" "c < m"
  shows "M[r0 := (M ! r0)[c0 := v]] ! r ! c = (if r = r0 \<and> c = c0 then v else M ! r ! c)"
proof (cases "r0 < length M")
  case True
  then have "length (M ! r0) = m" using assms(1) by (simp add: has_shape_def)
  then show ?thesis using True assms by (simp add: has_shape_def nth_list_update)
next
  case False
  then have "M[r0 := (M ! r0)[c0 := v]] = M" by (intro list_update_beyond) simp
  moreover have "r \<noteq> r0" using False assms by (auto simp: has_shape_def)
  ultimately show ?thesis by simp
qed

lemma triple_returns:
  assumes "0 < dt" and "\<forall>nt \<in> set ns. piano_note nt"
    and "\<forall>nt \<in> set ns. note_end dt nt < int n_frames"
  shows "\<exists>res. midi_to_triple_groundtruth ns dt n_frames k = Inr res"
proof -
  have "\<forall>nt \<in> set ns. piano_note nt \<and> note_end dt nt < int n_frames" using assms(2,3) by blast
  from triple_loop_ok[OF assms(1) this triple_ok_zeros[of n_frames k]]
  obtain st where "for_each (triple_note dt k) ns
      (np_zeros n_frames 88, np_zeros n_frames 88, np_zeros n_frames 88,
       replicate (nat k) (np_zeros n_frames 88)) = Inr st" by auto
  then show ?thesis unfolding midi_to_triple_groundtruth_def by (rule exI)
qed

lemma triple_fails:
  assumes "0 < dt" and "\<forall>nt \<in> set ns. piano_note nt"
    and "\<exists>nt \<in> set ns. int n_frames \<le> note_end dt nt"
  shows "midi_to_triple_groundtruth ns dt n_frames k = Inl IndexError"
  using triple_loop_fail[OF assms triple_ok_zeros[of n_frames k]]
  by (simp add: midi_to_triple_groundtruth_def)

lemma frame_slice_clips:
  assumes "0 < dt" and "piano_note nt"
  shows "\<exists>M. assign_slice_col 88 (note_start dt nt) (note_end dt nt) (note_label False nt) 1
            (np_zeros n_frames 88 :: int list list) = Inr M \<and> has_shape n_frames 88 M"
proof -
  have l: "0 \<le> note_label False nt" "note_label False nt < int 88"
    using note_label_range[OF assms(2), of False] by auto
  have se: "0 \<le> note_start dt nt" "0 \<le> note_end dt nt" using note_frames_nonneg[OF assms] by auto
  have z: "has_shape n_frames 88 (np_zeros n_frames 88 :: int list list)" by (rule has_shape_zeros)
  obtain M where "assign_slice_col 88 (note_start dt nt) (note_end dt nt) (note_label False nt) 1
            (np_zeros n_frames 88 :: int list list) = Inr M" "has_shape n_frames 88 M"
    using assign_slice_col_ok[OF z l se, where v = 1] by auto
  then show ?thesis by (intro exI conjI)
qed

lemma triple_example: "midi_to_triple_groundtruth [(0, 60, 1 / 2, 100, 0)] (1 / 100) 2 3 = Inl IndexError"
proof -
  have "(0::rat) < 1 / 100" by simp
  moreover have "\<forall>nt \<in> set [(0, 60, 1 / 2, 100, 0) :: midi_note]. piano_note nt"
    by (simp add: piano_note_def py_int_def)
  moreover have "\<exists>nt \<in> set [(0, 60, 1 / 2, 100, 0) :: midi_note]. int 2 \<le> note_end (1 / 100) nt"
    by (simp add: single_note_frames)
  ultimately show ?thesis by (rule triple_fails)
qed

text \<open>
  Claim C8. \<open>midi_to_triple_groundtruth\<close> writes \<open>offset_gt[frame_end, label]\<close> with no
  bounds check. For notes of the piano range with non-negative times and a positive
  \<open>dt\<close>: when every note has frame\_end < n\_frames the function returns normally; when
  some note has frame\_end \<ge> n\_frames it fails with IndexError; the slice assignment
  into the frame array succeeds for every note and keeps the \<open>n_frames\<close> rows (it clips).
  The note with onset 0, duration 0.5 and pitch 60 at 100 frames per second, with two
  frames, is an input on which the function fails.
\<close>

theorem triple_groundtruth_offset_bounds:
  assumes "0 < dt" and "\<forall>nt \<in> set ns. piano_note nt"
  shows "((\<forall>nt \<in> set ns. note_end dt nt < int n_frames) \<longrightarrow>
            (\<exists>res. midi_to_triple_groundtruth ns dt n_frames k = Inr res))
       \<and> ((\<exists>nt \<in> set ns. int n_frames \<le> note_end dt nt) \<longrightarrow>
            midi_to_triple_groundtruth ns dt n_frames k = Inl IndexError)
       \<and> (\<forall>nt \<in> set ns. \<exists>M.
            assign_slice_col 88 (note_start dt nt) (note_end dt nt) (note_label False nt) 1
              (np_zeros n_frames 88 :: int list list) = Inr M \<and> has_shape n_frames 88 M)
       \<and> midi_to_triple_groundtruth [(0, 60, 1 / 2, 100, 0)] (1 / 100) 2 3 = Inl IndexError"
proof (intro conjI impI ballI)
  assume "\<forall>nt \<in> set ns. note_end dt nt < int n_frames"
  then show "\<exists>res. midi_to_triple_groundtruth ns dt n_frames k = Inr res"
    by (rule triple_returns[OF assms])
next
  assume "\<exists>nt \<in> set ns. int n_frames \<le> note_end dt nt"
  then show "midi_to_triple_groundtruth ns dt n_frames k = Inl IndexError"
    by (rule triple_fails[OF assms])
next
  fix nt assume "nt \<in> set ns"
  then have "piano_note nt" using assms(2) by simp
  then show "\<exists>M. assign_slice_col 88 (note_start dt nt) (note_end dt nt) (note_label False nt) 1
              (np_zeros n_frames 88 :: int list list) = Inr M \<and> has_shape n_frames 88 M"
    by (rule frame_slice_clips[OF assms(1)])
next
  show "midi_to_triple_groundtruth [(0, 60, 1 / 2, 100, 0)] (1 / 100) 2 3 = Inl IndexError"
    by (rule triple_example)
qed

theorem triple_groundtruth_offset_bounds_witness:
  "(0::rat) < 1 / 100 \<and> piano_note (0, 60, 1 / 2, 100, 0)
   \<and> note_end (1 / 100) (0, 60, 1 / 2, 100, 0) < int 51
   \<and> (\<exists>res. midi_to_triple_groundtruth [(0, 60, 1 / 2, 100, 0)] (1 / 100) 51 3 = Inr res)
   \<and> int 50 \<le> note_end (1 / 100) (0, 60, 1 / 2, 100, 0)
   \<and> midi_to_triple_groundtruth [(0, 60, 1 / 2, 100, 0)] (1 / 100) 50 3 = Inl IndexError"
proof -
  let ?ns = "[(0, 60, 1 / 2, 100, 0)] :: midi_note list"
  have dt: "(0::rat) < 1 / 100" by simp
  have p: "\<forall>nt \<in> set ?ns. piano_note nt" by (simp add: piano_note_def py_int_def)
  have e: "note_end (1 / 100) (0, 60, 1 / 2, 100, 0) = 50" by (rule single_note_frames)
  have a: "\<exists>res. midi_to_triple_groundtruth ?ns (1 / 100) 51 3 = Inr res"
    using conjunct1[OF triple_groundtruth_offset_bounds[OF dt p, of 51 3]] by (simp add: e)
  have b: "midi_to_triple_groundtruth ?ns (1 / 100) 50 3 = Inl IndexError"
    using conjunct1[OF conjunct2[OF triple_groundtruth_offset_bounds[OF dt p, of 50 3]]]
    by (simp add: e)
  have pn: "piano_note (0, 60, 1 / 2, 100, 0)" using p by simp
  have e1: "note_end (1 / 100) (0, 60, 1 / 2, 100, 0) < int 51" by (simp add: e)
  have e2: "int 50 \<le> note_end (1 / 100) (0, 60, 1 / 2, 100, 0)" by (simp add: e)
  show ?thesis using dt pn e1 a e2 b by (intro conjI)
qed

lemma triple_loop_onset:
  assumes dt: "0 < dt"
  shows "\<forall>nt \<in> set ns. piano_note nt \<and> note_end dt nt < int n \<Longrightarrow> triple_ok n k (Fg, Og, Off, P) \<Longrightarrow>
     \<exists>Fg' Og' Off' P'. for_each (triple_note dt k) ns (Fg, Og, Off, P) = Inr (Fg', Og', Off', P')
       \<and> triple_ok n k (Fg', Og', Off', P')
       \<and> (\<forall>r<n. \<forall>c<88. Og' ! r ! c = (if starting dt ns r c then 1 else Og ! r ! c))"
proof (induction ns arbitrary: Fg Og Off P)
  case Nil
  then show ?case by (simp add: starting_def)
next
  case (Cons x xs)
  let ?s = "note_start dt x" and ?e = "note_end dt x" and ?l = "note_label False x"
  let ?Og1 = "Og[nat ?s := (Og ! nat ?s)[nat ?l := 1]]"
  let ?Off1 = "Off[nat ?e := (Off ! nat ?e)[nat ?l := 1]]"
  have x: "piano_note x" "note_end dt x < int n" using Cons.prems(1) by auto
  have shOg: "has_shape n 88 Og" using Cons.prems(2) by (simp add: triple_ok_def)
  have l: "0 \<le> ?l" using note_label_range[OF x(1), of False] by auto
  have s: "0 \<le> ?s" using note_frames_nonneg[OF dt x(1)] by auto
  obtain Fg1 P1 where st1: "triple_note dt k x (Fg, Og, Off, P) = Inr (Fg1, ?Og1, ?Off1, P1)"
    and ok1: "triple_ok n k (Fg1, ?Og1, ?Off1, P1)"
    using triple_note_ok[OF dt x Cons.prems(2)] by blast
  have rest: "\<forall>nt \<in> set xs. piano_note nt \<and> note_end dt nt < int n" using Cons.prems(1) by simp
  obtain Fg' Og' Off' P' where r: "for_each (triple_note dt k) xs (Fg1, ?Og1, ?Off1, P1) = Inr (Fg', Og', Off', P')"
    and ok: "triple_ok n k (Fg', Og', Off', P')"
    and cells: "\<forall>r<n. \<forall>c<88. Og' ! r ! c = (if starting dt xs r c then 1 else ?Og1 ! r ! c)"
    using Cons.IH[OF rest ok1] by blast
  have c1: "?Og1 ! r ! c = (if int r = ?s \<and> int c = ?l then 1 else Og ! r ! c)"
    if rc: "r < n" "c < 88" for r c
  proof -
    have "?Og1 ! r ! c = (if r = nat ?s \<and> c = nat ?l then 1 else Og ! r ! c)"
      using shOg rc by (rule cell_update)
    moreover have "(r = nat ?s) = (int r = ?s)" "(c = nat ?l) = (int c = ?l)" using s l by auto
    ultimately show ?thesis by simp
  qed
  have st: "starting dt (x # xs) r c = ((int r = ?s \<and> int c = ?l) \<or> starting dt xs r c)" for r c
    by (auto simp: starting_def)
  have "for_each (triple_note dt k) (x # xs) (Fg, Og, Off, P) = Inr (Fg', Og', Off', P')"
    using st1 r by simp
  moreover have "\<forall>r<n. \<forall>c<88. Og' ! r ! c = (if starting dt (x # xs) r c then 1 else Og ! r ! c)"
    using cells c1 by (simp add: st)
  ultimately show ?case using ok by blast
qed

lemma matrix_eq_iff:
  assumes "has_shape n m A" "has_shape n m B"
  shows "A = B \<longleftrightarrow> (\<forall>r<n. \<forall>c<m. A ! r ! c = B ! r ! c)"
proof
  assume "A = B" then show "\<forall>r<n. \<forall>c<m. A ! r ! c = B ! r ! c" by simp
next
  assume eq: "\<forall>r<n. \<forall>c<m. A ! r ! c = B ! r ! c"
  have len: "length A = n" "length B = n" using assms by (simp_all add: has_shape_def)
  show "A = B"
  proof (rule nth_equalityI)
    show "length A = length B" using len by simp
  next
    fix r assume r: "r < length A"
    then have rn: "r < n" using len by simp
    have la: "length (A ! r) = m" and lb: "length (B ! r) = m"
      using assms rn by (simp_all add: has_shape_nth)
    show "A ! r = B ! r"
    proof (rule nth_equalityI)
      show "length (A ! r) = length (B ! r)" using la lb by simp
    next
      fix c assume "c < length (A ! r)"
      then show "A ! r ! c = B ! r ! c" using eq rn la by simp
    qed
  qed
qed

lemma onset_cells:
  assumes dt: "0 < dt" and pn: "\<forall>nt \<in> set ns. piano_note nt"
    and e: "\<forall>nt \<in> set ns. note_end dt nt < int n_frames"
  shows "\<exists>frame_gt onset_gt offset_gt onset_plus frame_gt2 onset_gt2.
      midi_to_triple_groundtruth ns dt n_frames k = Inr (frame_gt, onset_gt, offset_gt, onset_plus)
    \<and> midi_to_groundtruth ns dt n_frames False = Inr (frame_gt2, onset_gt2)
    \<and> has_shape n_frames 88 onset_gt \<and> has_shape n_frames 88 onset_gt2
    \<and> (\<forall>r<n_frames. \<forall>c<88. onset_gt ! r ! c = (if starting dt ns r c then 1 else 0))
    \<and> (\<forall>r<n_frames. \<forall>c<88. onset_gt2 ! r ! c = (if onsetting dt False ns r c then 1 else 0))"
proof -
  let ?Z = "np_zeros n_frames 88 :: int list list"
  have good: "\<forall>nt \<in> set ns. piano_note nt \<and> note_end dt nt < int n_frames" using pn e by blast
  obtain Fg Og Off P where t: "for_each (triple_note dt k) ns (?Z, ?Z, ?Z, replicate (nat k) ?Z) = Inr (Fg, Og, Off, P)"
    and ok: "triple_ok n_frames k (Fg, Og, Off, P)"
    and cells: "\<forall>r<n_frames. \<forall>c<88. Og ! r ! c = (if starting dt ns r c then 1 else ?Z ! r ! c)"
    using triple_loop_onset[OF dt good triple_ok_zeros[of n_frames k]] by blast
  have tr: "midi_to_triple_groundtruth ns dt n_frames k = Inr (Fg, Og, Off, P)"
    using t by (simp add: midi_to_triple_groundtruth_def)
  have shOg: "has_shape n_frames 88 Og" using ok by (simp add: triple_ok_def)
  have og: "\<forall>r<n_frames. \<forall>c<88. Og ! r ! c = (if starting dt ns r c then 1 else 0)"
    using cells by (simp add: np_zeros_def)
  obtain Fg2 Og2 where g: "midi_to_groundtruth ns dt n_frames False = Inr (Fg2, Og2)"
    and sh2: "has_shape n_frames 88 Og2"
    and og2: "\<forall>r<n_frames. \<forall>c<88. Og2 ! r ! c = (if onsetting dt False ns r c then 1 else 0)"
    using groundtruth_from_zeros[OF dt pn, of n_frames False] by blast
  show ?thesis using tr g shOg sh2 og og2 by (intro exI conjI)
qed

text \<open>
  Claim C10, amended. For every list of notes of the piano range whose frame\_end is
  below \<open>n_frames\<close>, both functions return. The onset array of
  \<open>midi_to_triple_groundtruth\<close> is 1 exactly at the cells (frame\_start, label) of the
  notes of the list, whatever their length; the onset array of \<open>midi_to_groundtruth\<close> is 1
  exactly at the rows frame\_start and frame\_start + 1 of column label of the notes with
  frame\_start + 2 \<le> frame\_end. The two arrays are equal exactly when these two sets of
  cells are. For every note that spans at least two frames the array of
  \<open>midi_to_groundtruth\<close> is 1 at (frame\_start + 1, label); the array of
  \<open>midi_to_triple_groundtruth\<close> is 1 there only when some note of the list with the same
  label starts at that row, and when none does the two arrays differ.
\<close>

theorem onset_groundtruth_cells:
  assumes dt: "0 < dt" and pn: "\<forall>nt \<in> set ns. piano_note nt"
    and e: "\<forall>nt \<in> set ns. note_end dt nt < int n_frames"
  shows "\<exists>frame_gt onset_gt offset_gt onset_plus frame_gt2 onset_gt2.
      midi_to_triple_groundtruth ns dt n_frames k = Inr (frame_gt, onset_gt, offset_gt, onset_plus)
    \<and> midi_to_groundtruth ns dt n_frames False = Inr (frame_gt2, onset_gt2)
    \<and> (\<forall>r<n_frames. \<forall>c<88. onset_gt ! r ! c = (if starting dt ns r c then 1 else 0))
    \<and> (\<forall>r<n_frames. \<forall>c<88. onset_gt2 ! r ! c = (if onsetting dt False ns r c then 1 else 0))
    \<and> (onset_gt = onset_gt2 \<longleftrightarrow>
          (\<forall>r<n_frames. \<forall>c<88. starting dt ns r c = onsetting dt False ns r c))
    \<and> (\<forall>nt \<in> set ns. note_start dt nt + 2 \<le> note_end dt nt \<longrightarrow>
          onset_gt2 ! nat (note_start dt nt + 1) ! nat (note_label False nt) = 1
        \<and> onset_gt ! nat (note_start dt nt + 1) ! nat (note_label False nt)
            = (if starting dt ns (nat (note_start dt nt + 1)) (nat (note_label False nt))
               then 1 else 0)
        \<and> (\<not> starting dt ns (nat (note_start dt nt + 1)) (nat (note_label False nt))
              \<longrightarrow> onset_gt \<noteq> onset_gt2))"
proof -
  obtain Fg Og Off P Fg2 Og2 where
    tr: "midi_to_triple_groundtruth ns dt n_frames k = Inr (Fg, Og, Off, P)"
    and g: "midi_to_groundtruth ns dt n_frames False = Inr (Fg2, Og2)"
    and sh: "has_shape n_frames 88 Og" "has_shape n_frames 88 Og2"
    and og: "\<forall>r<n_frames. \<forall>c<88. Og ! r ! c = (if starting dt ns r c then 1 else 0)"
    and og2: "\<forall>r<n_frames. \<forall>c<88. Og2 ! r ! c = (if onsetting dt False ns r c then 1 else 0)"
    using onset_cells[OF assms, of k] by blast
  have "Og = Og2 \<longleftrightarrow> (\<forall>r<n_frames. \<forall>c<88. Og ! r ! c = Og2 ! r ! c)"
    using sh by (rule matrix_eq_iff)
  also have "\<dots> \<longleftrightarrow> (\<forall>r<n_frames. \<forall>c<88. starting dt ns r c = onsetting dt False ns r c)"
    using og og2 by auto
  finally have eq: "Og = Og2 \<longleftrightarrow>
      (\<forall>r<n_frames. \<forall>c<88. starting dt ns r c = onsetting dt False ns r c)" .
  have per: "Og2 ! nat (note_start dt nt + 1) ! nat (note_label False nt) = 1
        \<and> Og ! nat (note_start dt nt + 1) ! nat (note_label False nt)
            = (if starting dt ns (nat (note_start dt nt + 1)) (nat (note_label False nt))
               then 1 else 0)
        \<and> (\<not> starting dt ns (nat (note_start dt nt + 1)) (nat (note_label False nt))
              \<longrightarrow> Og \<noteq> Og2)"
    if nt: "nt \<in> set ns" and span: "note_start dt nt + 2 \<le> note_end dt nt" for nt
  proof -
    let ?s = "note_start dt nt" and ?l = "note_label False nt"
    have p: "piano_note nt" using pn nt by simp
    have l: "0 \<le> ?l" "?l < 88" using note_label_range[OF p, of False] by auto
    have s: "0 \<le> ?s" using note_frames_nonneg[OF dt p] by auto
    have r: "nat (?s + 1) < n_frames" using span e nt s by fastforce
    have c: "nat ?l < 88" using l by linarith
    have "onsetting dt False ns (nat (?s + 1)) (nat ?l)"
      unfolding onsetting_def using nt span s l by (intro bexI[of _ nt]) auto
    then have a: "Og2 ! nat (?s + 1) ! nat ?l = 1" using og2 r c by simp
    have b: "Og ! nat (?s + 1) ! nat ?l = (if starting dt ns (nat (?s + 1)) (nat ?l) then 1 else 0)"
      using og r c by blast
    have "Og \<noteq> Og2" if "\<not> starting dt ns (nat (?s + 1)) (nat ?l)"
      using a b that by auto
    then show ?thesis using a b by blast
  qed
  show ?thesis
  proof (intro exI conjI ballI impI)
    show "midi_to_triple_groundtruth ns dt n_frames k = Inr (Fg, Og, Off, P)" by (rule tr)
    show "midi_to_groundtruth ns dt n_frames False = Inr (Fg2, Og2)" by (rule g)
    show "\<forall>r<n_frames. \<forall>c<88. Og ! r ! c = (if starting dt ns r c then 1 else 0)" by (rule og)
    show "\<forall>r<n_frames. \<forall>c<88. Og2 ! r ! c = (if onsetting dt False ns r c then 1 else 0)"
      by (rule og2)
    show "Og = Og2 \<longleftrightarrow> (\<forall>r<n_frames. \<forall>c<88. starting dt ns r c = onsetting dt False ns r c)"
      by (rule eq)
  next
    fix nt assume "nt \<in> set ns" "note_start dt nt + 2 \<le> note_end dt nt"
    then show "Og2 ! nat (note_start dt nt + 1) ! nat (note_label False nt) = 1"
      using per by blast
  next
    fix nt assume "nt \<in> set ns" "note_start dt nt + 2 \<le> note_end dt nt"
    then show "Og ! nat (note_start dt nt + 1) ! nat (note_label False nt)
            = (if starting dt ns (nat (note_start dt nt + 1)) (nat (note_label False nt))
               then 1 else 0)"
      using per by blast
  next
    fix nt assume "nt \<in> set ns" "note_start dt nt + 2 \<le> note_end dt nt"
      "\<not> starting dt ns (nat (note_start dt nt + 1)) (nat (note_label False nt))"
    then show "Og \<noteq> Og2" using per by blast
  qed
qed

theorem onset_groundtruth_cells_witness:
  "(0::rat) < 1 / 100 \<and> piano_note (0, 60, 1 / 2, 100, 0)
   \<and> note_end (1 / 100) (0, 60, 1 / 2, 100, 0) < int 51
   \<and> note_start (1 / 100) (0, 60, 1 / 2, 100, 0) + 2 \<le> note_end (1 / 100) (0, 60, 1 / 2, 100, 0)
   \<and> \<not> starting (1 / 100) [(0, 60, 1 / 2, 100, 0)] 1 39
   \<and> (\<exists>frame_gt onset_gt offset_gt onset_plus frame_gt2 onset_gt2.
        midi_to_triple_groundtruth [(0, 60, 1 / 2, 100, 0)] (1 / 100) 51 3
          = Inr (frame_gt, onset_gt, offset_gt, onset_plus)
      \<and> midi_to_groundtruth [(0, 60, 1 / 2, 100, 0)] (1 / 100) 51 False = Inr (frame_gt2, onset_gt2)
      \<and> onset_gt ! 1 ! 39 = 0 \<and> onset_gt2 ! 1 ! 39 = 1 \<and> onset_gt \<noteq> onset_gt2)"
proof -
  let ?nt = "(0, 60, 1 / 2, 100, 0) :: midi_note"
  have dt: "(0::rat) < 1 / 100" by simp
  have p: "piano_note ?nt" by (simp add: piano_note_def py_int_def)
  have pn: "\<forall>nt \<in> set [?nt]. piano_note nt" using p by simp
  have fr: "note_start (1 / 100) ?nt = 0" "note_end (1 / 100) ?nt = 50" "note_label False ?nt = 39"
    by (rule single_note_frames)+
  have e: "note_end (1 / 100) ?nt < int 51" by (simp add: fr)
  have en: "\<forall>nt \<in> set [?nt]. note_end (1 / 100) nt < int 51" using e by simp
  have span: "note_start (1 / 100) ?nt + 2 \<le> note_end (1 / 100) ?nt" by (simp add: fr)
  have ns: "\<not> starting (1 / 100) [?nt] 1 39" by (simp add: starting_def fr)
  from onset_groundtruth_cells[OF dt pn en, of 3]
  obtain frame_gt onset_gt offset_gt onset_plus frame_gt2 onset_gt2 where
    a: "midi_to_triple_groundtruth [?nt] (1 / 100) 51 3 = Inr (frame_gt, onset_gt, offset_gt, onset_plus)"
    and b: "midi_to_groundtruth [?nt] (1 / 100) 51 False = Inr (frame_gt2, onset_gt2)"
    and c: "\<forall>nt \<in> set [?nt]. note_start (1 / 100) nt + 2 \<le> note_end (1 / 100) nt \<longrightarrow>
          onset_gt2 ! nat (note_start (1 / 100) nt + 1) ! nat (note_label False nt) = 1
        \<and> onset_gt ! nat (note_start (1 / 100) nt + 1) ! nat (note_label False nt)
            = (if starting (1 / 100) [?nt] (nat (note_start (1 / 100) nt + 1)) (nat (note_label False nt))
               then 1 else 0)
        \<and> (\<not> starting (1 / 100) [?nt] (nat (note_start (1 / 100) nt + 1)) (nat (note_label False nt))
              \<longrightarrow> onset_gt \<noteq> onset_gt2)"
    by blast
  have d: "onset_gt ! 1 ! 39 = 0" "onset_gt2 ! 1 ! 39 = 1" "onset_gt \<noteq> onset_gt2"
    using c span ns by (simp_all add: fr)
  have "\<exists>frame_gt onset_gt offset_gt onset_plus frame_gt2 onset_gt2.
        midi_to_triple_groundtruth [?nt] (1 / 100) 51 3
          = Inr (frame_gt, onset_gt, offset_gt, onset_plus)
      \<and> midi_to_groundtruth [?nt] (1 / 100) 51 False = Inr (frame_gt2, onset_gt2)
      \<and> onset_gt ! 1 ! 39 = 0 \<and> onset_gt2 ! 1 ! 39 = 1 \<and> onset_gt \<noteq> onset_gt2"
    using a b d by (intro exI conjI)
  then show ?thesis using dt p e span ns by (intro conjI)
qed

lemma np_round_numeral: "np_round (numeral w) = numeral w"
  using np_round_of_int[of "numeral w"] by simp

lemma np_round_one: "np_round 1 = 1"
  using np_round_of_int[of 1] by simp

lemma np_round_zero: "np_round 0 = 0"
  using np_round_of_int[of 0] by simp

lemma two_notes_frames:
  "note_start (1 / 100) (0, 60, 1 / 50, 100, 0) = 0"
  "note_end (1 / 100) (0, 60, 1 / 50, 100, 0) = 2"
  "note_label False (0, 60, 1 / 50, 100, 0) = 39"
  "note_start (1 / 100) (1 / 100, 60, 1 / 100, 100, 0) = 1"
  "note_end (1 / 100) (1 / 100, 60, 1 / 100, 100, 0) = 2"
  "note_label False (1 / 100, 60, 1 / 100, 100, 0) = 39"
  by (simp_all add: note_start_def note_end_def note_label_def py_int_def np_round_numeral
      np_round_one np_round_zero)

text \<open>
  The claim as stated has the two functions disagree for every note that spans at least
  two frames. With the two notes of pitch 60 at 100 frames per second, the first from 0
  for 0.02 s (frames 0 to 2) and the second from 0.01 s for 0.01 s (frames 1 to 2), the
  first note spans two frames and both functions return the same onset array, with
  rows 0 and 1 of column 39 set: the second note starts at the row that
  \<open>midi_to_triple_groundtruth\<close> leaves out for the first.
\<close>

theorem onset_groundtruth_counterexample:
  "note_start (1 / 100) (0, 60, 1 / 50, 100, 0) + 2 \<le> note_end (1 / 100) (0, 60, 1 / 50, 100, 0)
   \<and> map_sum id (fst \<circ> snd)
        (midi_to_triple_groundtruth [(0, 60, 1 / 50, 100, 0), (1 / 100, 60, 1 / 100, 100, 0)]
           (1 / 100) 3 0)
       = Inr (set_rows_col 0 2 39 1 (np_zeros 3 88))
   \<and> map_sum id snd
        (midi_to_groundtruth [(0, 60, 1 / 50, 100, 0), (1 / 100, 60, 1 / 100, 100, 0)]
           (1 / 100) 3 False)
       = Inr (set_rows_col 0 2 39 1 (np_zeros 3 88))"
proof -
  let ?ns = "[(0, 60, 1 / 50, 100, 0), (1 / 100, 60, 1 / 100, 100, 0)] :: midi_note list"
  let ?M = "set_rows_col 0 2 39 1 (np_zeros 3 88) :: int list list"
  have dt: "(0::rat) < 1 / 100" by simp
  have pn: "\<forall>nt \<in> set ?ns. piano_note nt" by (simp add: piano_note_def py_int_def)
  have en: "\<forall>nt \<in> set ?ns. note_end (1 / 100) nt < int 3" by (simp add: two_notes_frames)
  have st: "starting (1 / 100) ?ns r c = (r < 2 \<and> c = 39)" for r c
    by (auto simp: starting_def two_notes_frames)
  have on: "onsetting (1 / 100) False ?ns r c = (r < 2 \<and> c = 39)" for r c
    by (auto simp: onsetting_def two_notes_frames)
  obtain Fg Og Off P Fg2 Og2 where
    tr: "midi_to_triple_groundtruth ?ns (1 / 100) 3 0 = Inr (Fg, Og, Off, P)"
    and g: "midi_to_groundtruth ?ns (1 / 100) 3 False = Inr (Fg2, Og2)"
    and sh: "has_shape 3 88 Og" "has_shape 3 88 Og2"
    and og: "\<forall>r<3. \<forall>c<88. Og ! r ! c = (if starting (1 / 100) ?ns r c then 1 else 0)"
    and og2: "\<forall>r<3. \<forall>c<88. Og2 ! r ! c = (if onsetting (1 / 100) False ?ns r c then 1 else 0)"
    using onset_cells[OF dt pn en, of 0] by blast
  have shM: "has_shape 3 88 ?M" by (intro has_shape_set_rows_col has_shape_zeros)
  have M: "?M ! r ! c = (if r < 2 \<and> c = 39 then 1 else 0)" if "r < 3" "c < 88" for r c
    using cell_set_rows_col[OF has_shape_zeros that, of 0 2 39 "1::int"] that
    by (simp add: np_zeros_def)
  have "Og = ?M" using og M unfolding matrix_eq_iff[OF sh(1) shM] st by simp
  moreover have "Og2 = ?M" using og2 M unfolding matrix_eq_iff[OF sh(2) shM] on by simp
  ultimately show ?thesis using tr g by (simp add: two_notes_frames)
qed

section \<open>Proofs: the overlapping writer\<close>

lemma py_range_nonempty:
  "start < stop \<Longrightarrow> py_range start stop = start # py_range (start + 1) stop"
proof -
  assume a: "start < stop"
  then obtain m where m: "nat (stop - start) = Suc m" by (cases "nat (stop - start)") auto
  then have m': "nat (stop - (start + 1)) = m" by linarith
  have "[0..<Suc m] = 0 # map Suc [0..<m]" by (simp add: upt_conv_Cons map_Suc_upt del: upt_Suc)
  then show ?thesis by (simp add: py_range_def m m' comp_def del: upt_Suc)
qed

lemma length_normalise: "normalise nf M = Inr M' \<Longrightarrow> length M' = length M"
  by (auto simp: normalise_def split: if_splits)

lemma tfrecords_frame_raises: "tfrecords_frame S g c frame st = Inl TypeError"
  by (cases st) (simp add: tfrecords_frame_def tuple_getitem_frame_def Let_def)

lemma tfrecords_raises:
  assumes "2 * context_frames < int (length spectrogram)"
  shows "\<exists>e. write_file_to_tfrecords spectrogram ns fps norm_flag context_frames = Inl e"
proof (cases "py_recip fps")
  case (Inl e)
  then show ?thesis by (simp add: write_file_to_tfrecords_def)
next
  case dt: (Inr dt)
  show ?thesis
  proof (cases "midi_to_groundtruth ns dt (length spectrogram) False")
    case (Inl e)
    then show ?thesis using dt by (simp add: write_file_to_tfrecords_def)
  next
    case g: (Inr g)
    show ?thesis
    proof (cases "normalise norm_flag spectrogram")
      case (Inl e)
      then show ?thesis using dt g by (simp add: write_file_to_tfrecords_def)
    next
      case (Inr S)
      have "length S = length spectrogram" using Inr by (rule length_normalise)
      then have "context_frames < int (length S) - context_frames" using assms by simp
      then have "py_range context_frames (int (length S) - context_frames)
         = context_frames # py_range (context_frames + 1) (int (length S) - context_frames)"
        by (rule py_range_nonempty)
      then have "write_file_to_tfrecords spectrogram ns fps norm_flag context_frames = Inl TypeError"
        using dt g Inr by (simp add: write_file_to_tfrecords_def tfrecords_frame_raises)
      then show ?thesis by blast
    qed
  qed
qed

lemma tfrecords_28_frames:
  assumes "length spectrogram = 28"
  shows "write_file_to_tfrecords spectrogram [] 100 False 5 = Inl TypeError"
proof -
  have r: "py_range 5 (int (length spectrogram) - 5) = 5 # py_range (5 + 1) (int (length spectrogram) - 5)"
    using assms by (intro py_range_nonempty) simp
  show ?thesis
    by (simp add: write_file_to_tfrecords_def py_recip_def midi_to_groundtruth_def normalise_def r
        tfrecords_frame_raises del: One_nat_def)
qed

text \<open>
  Claim C1 says that \<open>write_file_to_tfrecords\<close> writes one record for every centre
  frame of [C, F - C) and returns their count, 18 for 28 frames and C = 5. The code
  binds \<open>ground_truth\<close> to the pair that \<open>midi_to_groundtruth\<close> returns and indexes it
  as an array in the first iteration of the loop: whenever F > 2C the call raises and
  no count is returned. For 28 frames and C = 5 the exception is the TypeError of that
  index.
\<close>

theorem write_file_to_tfrecords_raises:
  "(2 * context_frames < int (length spectrogram) \<longrightarrow>
      (\<exists>e. write_file_to_tfrecords spectrogram ns fps norm_flag context_frames = Inl e))
   \<and> (length spectrogram = 28 \<longrightarrow>
      write_file_to_tfrecords spectrogram [] 100 False 5 = Inl TypeError)"
  using tfrecords_raises tfrecords_28_frames by blast

theorem write_file_to_tfrecords_raises_witness:
  "2 * 5 < int (length (replicate 28 [1 / 2 :: rat])) \<and> length (replicate 28 [1 / 2 :: rat]) = 28
   \<and> write_file_to_tfrecords (replicate 28 [1 / 2]) [] 100 False 5 = Inl TypeError"
  using write_file_to_tfrecords_raises[of 5 "replicate 28 [1 / 2]"] by simp

section \<open>Proofs: \<open>chunks\<close> and the non-overlapping writer\<close>

lemma n_chunks_alt:
  assumes "0 < F" "0 < C"
  shows "n_chunks F C = Suc ((F - 1) div C)"
proof -
  have "F + C - 1 = (F - 1) + C" using assms by simp
  then have "(F + C - 1) div C = ((F - 1) + C) div C" by (rule arg_cong)
  also have "\<dots> = (F - 1) div C + 1" using assms(2) by (intro div_add_self2) simp
  finally show ?thesis by (simp add: n_chunks_def)
qed

lemma last_chunk_start:
  assumes "0 < F" "0 < C"
  shows "(n_chunks F C - 1) * C < F"
proof -
  have "(F - 1) div C * C \<le> F - 1" by (rule div_times_less_eq_dividend)
  moreover have "F - 1 < F" using assms(1) by simp
  moreover have "n_chunks F C - 1 = (F - 1) div C" using n_chunks_alt[OF assms] by simp
  ultimately show ?thesis by (simp only: le_less_trans)
qed

lemma chunks_cover:
  assumes "0 < F" "0 < C"
  shows "F \<le> n_chunks F C * C"
proof -
  have "F - 1 < C + (F - 1) div C * C" using assms(2) by (rule dividend_less_div_times)
  moreover have "n_chunks F C * C = C + (F - 1) div C * C" using n_chunks_alt[OF assms] by simp
  ultimately show ?thesis using assms(1) by linarith
qed

lemma chunk_start:
  assumes "0 < F" "0 < C" "k < n_chunks F C"
  shows "k * C < F"
proof -
  have "k \<le> n_chunks F C - 1" using assms(3) by simp
  then have "k * C \<le> (n_chunks F C - 1) * C" by (rule mult_le_mono1)
  then show ?thesis using last_chunk_start[OF assms(1,2)] by (rule le_less_trans)
qed

lemma full_chunk:
  assumes "0 < F" "0 < C" "Suc k < n_chunks F C"
  shows "k * C + C \<le> F"
proof -
  have "Suc k * C < F" using assms by (rule chunk_start)
  then show ?thesis by simp
qed

lemma slice_bound_nat: "slice_bound n (int i) = min i n"
  by (simp add: slice_bound_def)

lemma rows_slice_nat: "rows_slice xs (int i) (int (i + C)) = take C (drop i xs)"
proof (cases "i \<le> length xs")
  case True
  then have "min (i + C) (length xs) - min i (length xs) = min C (length xs - i)" by auto
  then show ?thesis using True
    by (simp add: rows_slice_def slice_bound_nat Let_def min_def del: of_nat_add)
next
  case False
  then show ?thesis by (simp add: rows_slice_def slice_bound_nat Let_def del: of_nat_add)
qed

lemma rows_slice_chunk: "rows_slice xs (int k * int C) (int k * int C + int C) = chunk C xs k"
proof -
  have "int k * int C = int (k * C)" "int k * int C + int C = int (k * C + C)" by simp_all
  then show ?thesis by (simp only: rows_slice_nat chunk_def)
qed

lemma range_from_steps:
  "0 < C \<Longrightarrow> range_from i n C = map (\<lambda>k. i + k * C) [0..<(n - i + C - 1) div C]"
proof (induction i n C rule: range_from.induct)
  case (1 i n C)
  show ?case
  proof (cases "i < n")
    case True
    have cnt: "(n - i + C - 1) div C = Suc ((n - (i + C) + C - 1) div C)"
    proof (cases "C \<le> n - i")
      case True
      then have "n - i + C - 1 = (n - (i + C) + C - 1) + C" using "1.prems" by simp
      then have "(n - i + C - 1) div C = ((n - (i + C) + C - 1) + C) div C" by (rule arg_cong)
      also have "\<dots> = (n - (i + C) + C - 1) div C + 1"
        using "1.prems" by (intro div_add_self2) simp
      finally show ?thesis by simp
    next
      case False
      then have z: "n - (i + C) = 0" by simp
      have "C \<le> n - i + C - 1" "n - i + C - 1 < 2 * C" using False True by simp_all
      then have "(n - i + C - 1) div C = 1"
        using "1.prems" by (intro div_nat_eqI) simp_all
      then show ?thesis using "1.prems" by (simp add: z)
    qed
    have "range_from i n C = i # range_from (i + C) n C" using True "1.prems" by simp
    also have "range_from (i + C) n C
        = map (\<lambda>k. i + C + k * C) [0..<(n - (i + C) + C - 1) div C]"
      using "1.IH" True "1.prems" by simp
    also have "i # map (\<lambda>k. i + C + k * C) [0..<(n - (i + C) + C - 1) div C]
        = map (\<lambda>k. i + k * C) [0..<Suc ((n - (i + C) + C - 1) div C)]"
      by (simp add: upt_conv_Cons map_Suc_upt[symmetric] add.assoc del: upt_Suc)
    finally show ?thesis by (simp only: cnt)
  next
    case False
    then have "n - i = 0" by simp
    then have "(n - i + C - 1) div C = 0" using "1.prems" by simp
    then show ?thesis using False by simp
  qed
qed

lemma chunks_pos:
  assumes "0 < C"
  shows "chunks xs (int C) = Inr (map (chunk C xs) [0..<n_chunks (length xs) C])"
proof -
  have "range_from 0 (length xs) C = map (\<lambda>k. k * C) [0..<n_chunks (length xs) C]"
    using range_from_steps[OF assms, of 0 "length xs"] by (simp add: n_chunks_def)
  then show ?thesis
    using assms by (simp add: chunks_def range_step_def rows_slice_chunk comp_def)
qed

lemma length_chunk: "length (chunk C xs k) = min C (length xs - k * C)"
  by (simp add: chunk_def)

lemma length_full_chunk:
  "0 < length xs \<Longrightarrow> 0 < C \<Longrightarrow> Suc k < n_chunks (length xs) C \<Longrightarrow> length (chunk C xs k) = C"
  using full_chunk[of "length xs" C k] by (simp add: length_chunk)

lemma concat_chunks: "0 < C \<Longrightarrow> concat (map (chunk C xs) [0..<n]) = take (n * C) xs"
proof (induction n)
  case 0
  then show ?case by simp
next
  case (Suc n)
  have "take (n * C) xs @ take C (drop (n * C) xs) = take (n * C + C) xs"
    by (simp add: take_add)
  then show ?case using Suc by (simp add: chunk_def add.commute)
qed

lemma chunk_rows: "set (chunk C xs k) \<subseteq> set xs"
  unfolding chunk_def by (meson set_take_subset set_drop_subset subset_trans)

lemma pad_last_chunks:
  assumes C: "0 < C" and n: "0 < n" and sh: "has_shape n m xs"
  shows "pad_last (int C) (map (chunk C xs) [0..<n_chunks n C])
       = Inr (map (padded C m xs) [0..<n_chunks n C])"
proof -
  have len: "length xs = n" using sh by (simp add: has_shape_def)
  obtain j where j: "n_chunks n C = Suc j" using n_chunks_alt[OF n C] by blast
  let ?l = "chunk C xs j"
  have start: "j * C < n" using chunk_start[OF n C, of j] j by simp
  then have ne: "?l \<noteq> []" using C len by (simp add: chunk_def)
  then have "hd ?l \<in> set xs" using chunk_rows[of C xs j] by auto
  then have hd: "length (hd ?l) = m" using sh by (simp add: has_shape_def)
  have le: "length ?l \<le> C" by (simp add: chunk_def)
  have full: "padded C m xs k = chunk C xs k" if "k < j" for k
  proof -
    have "Suc k < n_chunks (length xs) C" using that j len by simp
    then have "length (chunk C xs k) = C" using n C len by (intro length_full_chunk) simp_all
    then show ?thesis by (simp add: padded_def np_zeros_def)
  qed
  have "map (padded C m xs) [0..<j] = map (chunk C xs) [0..<j]"
    by (rule map_cong) (simp_all add: full)
  then have rhs: "map (padded C m xs) [0..<Suc j] = map (chunk C xs) [0..<j] @ [?l @ np_zeros (C - length ?l) m]"
    by (simp add: padded_def)
  have "pad_last (int C) (map (chunk C xs) [0..<j] @ [?l])
      = Inr (map (chunk C xs) [0..<j] @ [?l @ np_zeros (C - length ?l) m])"
    using le by (simp add: pad_last_def Let_def hd butlast_append nat_diff_distrib')
  then show ?thesis unfolding j rhs by simp
qed

lemma write_chunks_fold:
  "foldl (\<lambda>(written, total_examples_processed) (ex, gt, onset).
              (written @ [features_to_non_overlap_multi_head_example ex gt onset],
               total_examples_processed + 1)) (acc, n) zs
   = (acc @ map (\<lambda>(ex, gt, onset). features_to_non_overlap_multi_head_example ex gt onset) zs,
      n + length zs)"
  by (induction zs arbitrary: acc n) auto

lemma write_chunks_map:
  "write_chunks (map f [0..<n]) (map g [0..<n]) (map h [0..<n])
   = (map (\<lambda>k. features_to_non_overlap_multi_head_example (f k) (g k) (h k)) [0..<n], n)"
proof -
  have "zip (map f [0..<n]) (zip (map g [0..<n]) (map h [0..<n]))
      = map (\<lambda>k. (f k, g k, h k)) [0..<n]"
    by (simp add: zip_map_map zip_same_conv_map comp_def)
  then have "write_chunks (map f [0..<n]) (map g [0..<n]) (map h [0..<n])
      = ([] @ map (\<lambda>(ex, gt, onset). features_to_non_overlap_multi_head_example ex gt onset)
                (map (\<lambda>k. (f k, g k, h k)) [0..<n]),
         0 + length (map (\<lambda>k. (f k, g k, h k)) [0..<n]))"
    by (simp only: write_chunks_def write_chunks_fold)
  then show ?thesis by (simp add: comp_def)
qed

lemma has_shape_normalise:
  "has_shape n m M \<Longrightarrow> 0 < n \<Longrightarrow> 0 < m \<Longrightarrow> \<exists>S. normalise nf M = Inr S \<and> has_shape n m S"
proof -
  assume a: "has_shape n m M" "0 < n" "0 < m"
  then obtain row rest where M: "M = row # rest" by (cases M) (auto simp: has_shape_def)
  then have "length row = m" using a by (simp add: has_shape_def)
  then have "row \<noteq> []" using a(3) by auto
  then have "concat M \<noteq> []" using M by simp
  then show ?thesis using a(1) by (auto simp: normalise_def has_shape_def)
qed

lemma concat_zeros: "concat (np_zeros p m) = replicate (p * m) 0"
  by (induction p) (simp_all add: np_zeros_def replicate_add)

lemma length_concat_rows: "\<forall>row \<in> set M. length row = m \<Longrightarrow> length (concat M) = length M * m"
  by (induction M) simp_all

lemma concat_padded:
  "concat (padded C m xs k) = concat (chunk C xs k) @ replicate ((C - length (chunk C xs k)) * m) 0"
  by (simp add: padded_def concat_zeros)

lemma length_concat_padded:
  assumes "has_shape n m xs"
  shows "length (concat (padded C m xs k)) = C * m"
proof -
  have "\<forall>row \<in> set (chunk C xs k). length row = m"
    using assms chunk_rows[of C xs k] by (auto simp: has_shape_def)
  then have "length (concat (chunk C xs k)) = length (chunk C xs k) * m" by (rule length_concat_rows)
  moreover have le: "length (chunk C xs k) \<le> C" by (simp add: chunk_def)
  moreover have "length (chunk C xs k) * m + (C - length (chunk C xs k)) * m = C * m"
    using le by (simp add: add_mult_distrib[symmetric])
  ultimately show ?thesis by (simp only: concat_padded length_append length_replicate)
qed

lemma non_overlap_general:
  assumes fps: "0 < fps" and pn: "\<forall>nt \<in> set ns. piano_note nt"
    and sh: "has_shape F bins spectrogram" and F: "0 < F" and bins: "0 < bins" and C: "0 < C"
  shows "\<exists>S gt og recs.
      normalise norm_flag spectrogram = Inr S
    \<and> midi_to_groundtruth ns (1 / fps) F False = Inr (gt, og)
    \<and> write_file_to_non_overlap_tfrecords spectrogram ns fps norm_flag (int C) = Inr (recs, n_chunks F C)
    \<and> length recs = n_chunks F C
    \<and> (\<forall>k<n_chunks F C.
          mh_spec (recs ! k) = concat (chunk C S k) @ replicate ((C - length (chunk C S k)) * bins) 0
        \<and> mh_label (recs ! k) = concat (chunk C gt k) @ replicate ((C - length (chunk C gt k)) * 88) 0
        \<and> mh_onset (recs ! k) = concat (chunk C og k) @ replicate ((C - length (chunk C og k)) * 88) 0
        \<and> length (mh_spec (recs ! k)) = C * bins
        \<and> length (mh_label (recs ! k)) = C * 88
        \<and> length (mh_onset (recs ! k)) = C * 88)"
proof -
  have lenF: "length spectrogram = F" using sh by (simp add: has_shape_def)
  have dt: "0 < 1 / fps" using fps by simp
  obtain gt og where g: "midi_to_groundtruth ns (1 / fps) F False = Inr (gt, og)"
    and shg: "has_shape F 88 gt" "has_shape F 88 og"
    using groundtruth_from_zeros[OF dt pn, of F False] by (auto simp: n_cols_def)
  obtain S where S: "normalise norm_flag spectrogram = Inr S" and shS: "has_shape F bins S"
    using has_shape_normalise[OF sh F bins] by blast
  have lens: "length S = F" "length gt = F" "length og = F"
    using shS shg by (simp_all add: has_shape_def)
  let ?n = "n_chunks F C"
  let ?recs = "map (\<lambda>k. features_to_non_overlap_multi_head_example
                  (padded C bins S k) (padded C 88 gt k) (padded C 88 og k)) [0..<?n]"
  have w: "write_file_to_non_overlap_tfrecords spectrogram ns fps norm_flag (int C) = Inr (?recs, ?n)"
    using fps C
    by (simp add: write_file_to_non_overlap_tfrecords_def py_recip_def g lenF S
        chunks_pos lens pad_last_chunks[OF C F shS] pad_last_chunks[OF C F shg(1)]
        pad_last_chunks[OF C F shg(2)] write_chunks_map)
  have cells: "\<forall>k<?n.
          mh_spec (?recs ! k) = concat (chunk C S k) @ replicate ((C - length (chunk C S k)) * bins) 0
        \<and> mh_label (?recs ! k) = concat (chunk C gt k) @ replicate ((C - length (chunk C gt k)) * 88) 0
        \<and> mh_onset (?recs ! k) = concat (chunk C og k) @ replicate ((C - length (chunk C og k)) * 88) 0
        \<and> length (mh_spec (?recs ! k)) = C * bins
        \<and> length (mh_label (?recs ! k)) = C * 88
        \<and> length (mh_onset (?recs ! k)) = C * 88"
    using length_concat_padded[OF shS] length_concat_padded[OF shg(1)] length_concat_padded[OF shg(2)]
    by (simp add: features_to_non_overlap_multi_head_example_def concat_padded[symmetric])
  have "length ?recs = ?n" by simp
  then show ?thesis using S g w cells by blast
qed

lemma chunks_slices:
  assumes sh: "has_shape F bins spectrogram" and F: "0 < F" and C: "0 < C"
  shows "chunks spectrogram (int C) = Inr (map (chunk C spectrogram) [0..<n_chunks F C])"
    and "concat (map (chunk C spectrogram) [0..<n_chunks F C]) = spectrogram"
    and "\<forall>k. Suc k < n_chunks F C \<longrightarrow> length (chunk C spectrogram k) = C"
    and "0 < length (chunk C spectrogram (n_chunks F C - 1))"
    and "length (chunk C spectrogram (n_chunks F C - 1)) \<le> C"
proof -
  have len: "length spectrogram = F" using sh by (simp add: has_shape_def)
  show "chunks spectrogram (int C) = Inr (map (chunk C spectrogram) [0..<n_chunks F C])"
    using chunks_pos[OF C, of spectrogram] by (simp add: len)
  show "concat (map (chunk C spectrogram) [0..<n_chunks F C]) = spectrogram"
    using chunks_cover[OF F C] by (simp add: concat_chunks[OF C] len)
  show "\<forall>k. Suc k < n_chunks F C \<longrightarrow> length (chunk C spectrogram k) = C"
    using length_full_chunk[of spectrogram C] F C by (simp add: len)
  show "0 < length (chunk C spectrogram (n_chunks F C - 1))"
    using last_chunk_start[OF F C] C by (simp add: length_chunk len)
  show "length (chunk C spectrogram (n_chunks F C - 1)) \<le> C" by (simp add: length_chunk)
qed

lemma non_overlap_22_frames:
  assumes sh: "has_shape 22 bins spectrogram" and bins: "0 < bins"
  shows "\<exists>recs. write_file_to_non_overlap_tfrecords spectrogram [] 100 False 10 = Inr (recs, 3)
     \<and> length recs = 3 \<and> length (drop 20 spectrogram) = 2
     \<and> mh_spec (recs ! 2) = concat (drop 20 spectrogram) @ replicate (8 * bins) 0"
proof -
  have n: "n_chunks 22 10 = 3" by (simp add: n_chunks_def)
  have len: "length spectrogram = 22" using sh by (simp add: has_shape_def)
  have c: "chunk 10 spectrogram 2 = drop 20 spectrogram" by (simp add: chunk_def len)
  have S: "normalise False spectrogram = Inr spectrogram" by (simp add: normalise_def)
  have fps: "(0::rat) < 100" by simp
  have pn: "\<forall>nt \<in> set ([] :: midi_note list). piano_note nt" by simp
  have C: "(0::nat) < 10" and F: "(0::nat) < 22" by simp_all
  from non_overlap_general[OF fps pn sh F bins C, of False]
  obtain S' recs where S': "normalise False spectrogram = Inr S'"
    and w: "write_file_to_non_overlap_tfrecords spectrogram [] 100 False (int 10) = Inr (recs, n_chunks 22 10)"
    and l: "length recs = n_chunks 22 10"
    and cells: "\<forall>k<n_chunks 22 10. mh_spec (recs ! k)
         = concat (chunk 10 S' k) @ replicate ((10 - length (chunk 10 S' k)) * bins) 0"
    by blast
  have "S' = spectrogram" using S S' by simp
  then have "mh_spec (recs ! 2) = concat (drop 20 spectrogram) @ replicate (8 * bins) 0"
    using cells by (simp add: n c len)
  then show ?thesis using w l by (simp add: n len)
qed

text \<open>
  Claim C6. For a spectrogram of \<open>F > 0\<close> frames and a chunk length \<open>C > 0\<close>,
  \<open>chunks\<close> yields the \<open>ceil(F / C)\<close> consecutive slices \<open>[0, C)\<close>, \<open>[C, 2C)\<close>, ...:
  together they are the sequence, all but the last have \<open>C\<close> rows, the last has between
  1 and \<open>C\<close> rows and is not padded. \<open>write_file_to_non_overlap_tfrecords\<close> (notes of
  the piano range, positive fps, at least one frequency bin) writes \<open>ceil(F / C)\<close>
  records and returns that count; record \<open>k\<close> carries chunk \<open>k\<close> of the spectrogram, of
  the frame ground truth and of the onset ground truth, each followed by zeros up to
  \<open>C\<close> rows, which are none but for the last chunk. With 22 frames and \<open>C = 10\<close> there are
  3 records and the last holds 2 real rows and 8 rows of zeros.
\<close>

theorem non_overlap_chunks_and_records:
  assumes fps: "0 < fps" and pn: "\<forall>nt \<in> set ns. piano_note nt"
    and sh: "has_shape F bins spectrogram" and F: "0 < F" and bins: "0 < bins" and C: "0 < C"
  shows "chunks spectrogram (int C) = Inr (map (chunk C spectrogram) [0..<n_chunks F C])
    \<and> concat (map (chunk C spectrogram) [0..<n_chunks F C]) = spectrogram
    \<and> (\<forall>k. Suc k < n_chunks F C \<longrightarrow> length (chunk C spectrogram k) = C)
    \<and> 0 < length (chunk C spectrogram (n_chunks F C - 1))
    \<and> length (chunk C spectrogram (n_chunks F C - 1)) \<le> C
    \<and> (\<exists>S gt og recs.
          normalise norm_flag spectrogram = Inr S
        \<and> midi_to_groundtruth ns (1 / fps) F False = Inr (gt, og)
        \<and> write_file_to_non_overlap_tfrecords spectrogram ns fps norm_flag (int C)
            = Inr (recs, n_chunks F C)
        \<and> length recs = n_chunks F C
        \<and> (\<forall>k<n_chunks F C.
              mh_spec (recs ! k)
                = concat (chunk C S k) @ replicate ((C - length (chunk C S k)) * bins) 0
            \<and> mh_label (recs ! k)
                = concat (chunk C gt k) @ replicate ((C - length (chunk C gt k)) * 88) 0
            \<and> mh_onset (recs ! k)
                = concat (chunk C og k) @ replicate ((C - length (chunk C og k)) * 88) 0
            \<and> length (mh_spec (recs ! k)) = C * bins
            \<and> length (mh_label (recs ! k)) = C * 88
            \<and> length (mh_onset (recs ! k)) = C * 88))
    \<and> (\<forall>spec22. has_shape 22 bins spec22 \<longrightarrow>
          (\<exists>recs. write_file_to_non_overlap_tfrecords spec22 [] 100 False 10 = Inr (recs, 3)
             \<and> length recs = 3 \<and> length (drop 20 spec22) = 2
             \<and> mh_spec (recs ! 2) = concat (drop 20 spec22) @ replicate (8 * bins) 0))"
proof -
  note c = chunks_slices[OF sh F C]
  note g = non_overlap_general[OF assms, of norm_flag]
  have e: "\<forall>spec22. has_shape 22 bins spec22 \<longrightarrow>
          (\<exists>recs. write_file_to_non_overlap_tfrecords spec22 [] 100 False 10 = Inr (recs, 3)
             \<and> length recs = 3 \<and> length (drop 20 spec22) = 2
             \<and> mh_spec (recs ! 2) = concat (drop 20 spec22) @ replicate (8 * bins) 0)"
    using non_overlap_22_frames[OF _ bins] by blast
  show ?thesis using c g e by (intro conjI)
qed

theorem non_overlap_chunks_and_records_witness:
  "(0::rat) < 100 \<and> has_shape 22 1 (replicate 22 [1 / 2 :: rat]) \<and> (0::nat) < 22 \<and> (0::nat) < 1
   \<and> (0::nat) < 10
   \<and> chunks (replicate 22 [1 / 2 :: rat]) 10
        = Inr [replicate 10 [1 / 2], replicate 10 [1 / 2], replicate 2 [1 / 2]]
   \<and> (\<exists>recs. write_file_to_non_overlap_tfrecords (replicate 22 [1 / 2]) [] 100 False 10 = Inr (recs, 3)
         \<and> length recs = 3
         \<and> mh_spec (recs ! 2) = [1 / 2, 1 / 2, 0, 0, 0, 0, 0, 0, 0, 0])"
proof -
  let ?spec = "replicate 22 [1 / 2 :: rat]"
  have fps: "(0::rat) < 100" by simp
  have pn: "\<forall>nt \<in> set ([] :: midi_note list). piano_note nt" by simp
  have sh: "has_shape 22 1 ?spec" by (simp add: has_shape_def)
  have C: "(0::nat) < 10" and F: "(0::nat) < 22" and b: "(0::nat) < 1" by simp_all
  note t = non_overlap_chunks_and_records[OF fps pn sh F b C, of False]
  have n: "n_chunks 22 10 = 3" by (simp add: n_chunks_def)
  have u: "[0..<3] = [0, 1, 2]" by (simp add: upt_conv_Cons)
  have "chunks ?spec (int 10) = Inr (map (chunk 10 ?spec) [0..<n_chunks 22 10])"
    using t by (rule conjunct1)
  then have c: "chunks ?spec 10 = Inr [replicate 10 [1 / 2], replicate 10 [1 / 2], replicate 2 [1 / 2]]"
    by (simp add: n u chunk_def)
  have "\<forall>spec22. has_shape 22 1 spec22 \<longrightarrow>
          (\<exists>recs. write_file_to_non_overlap_tfrecords spec22 [] 100 False 10 = Inr (recs, 3)
             \<and> length recs = 3 \<and> length (drop 20 spec22) = 2
             \<and> mh_spec (recs ! 2) = concat (drop 20 spec22) @ replicate (8 * 1) 0)"
    using t by (elim conjE)
  then obtain recs where r: "write_file_to_non_overlap_tfrecords ?spec [] 100 False 10 = Inr (recs, 3)"
      "length recs = 3" "mh_spec (recs ! 2) = concat (drop 20 ?spec) @ replicate (8 * 1) 0"
    using sh by blast
  have "mh_spec (recs ! 2) = [1 / 2, 1 / 2, 0, 0, 0, 0, 0, 0, 0, 0]"
    using r(3) by (simp add: numeral_eq_Suc)
  then have "\<exists>recs. write_file_to_non_overlap_tfrecords ?spec [] 100 False 10 = Inr (recs, 3)
         \<and> length recs = 3 \<and> mh_spec (recs ! 2) = [1 / 2, 1 / 2, 0, 0, 0, 0, 0, 0, 0, 0]"
    using r(1,2) by (intro exI conjI)
  then show ?thesis using fps sh F b C c by (intro conjI)
qed

section \<open>Proofs: \<open>weights_from_labels\<close>\<close>

lemma in_np_where_one:
  "(r, c) \<in> set (np_where_one labels) \<longleftrightarrow> r < length labels \<and> c < length (labels ! r) \<and> labels ! r ! c = 1"
  by (auto simp: np_where_one_def)

lemma nth_update_any: "j < length W \<Longrightarrow> W[i := x] ! j = (if i = j then x else W ! j)"
  by (cases "i = j") simp_all

lemma set_rows_one_shape:
  "length (set_rows_one idx W) = length W \<and> (\<forall>r<length W. length (set_rows_one idx W ! r) = length (W ! r))"
proof (induction idx arbitrary: W)
  case Nil
  then show ?case by (simp add: set_rows_one_def)
next
  case (Cons p idx)
  obtain r c where p: "p = (r, c)" by (cases p)
  let ?W = "W[r := replicate (length (W ! r)) 1]"
  have "set_rows_one (p # idx) W = set_rows_one idx ?W" by (simp add: set_rows_one_def p)
  moreover have "length ?W = length W" "\<forall>r'<length W. length (?W ! r') = length (W ! r')"
    by (simp_all add: nth_update_any)
  ultimately show ?case using Cons.IH[of ?W] by simp
qed

lemma set_rows_one_nth:
  "r < length W \<Longrightarrow> set_rows_one idx W ! r =
     (if r \<in> fst ` set idx then replicate (length (W ! r)) 1 else W ! r)"
proof (induction idx arbitrary: W)
  case Nil
  then show ?case by (simp add: set_rows_one_def)
next
  case (Cons p idx)
  obtain r' c where p: "p = (r', c)" by (cases p)
  let ?W = "W[r' := replicate (length (W ! r')) 1]"
  have step: "set_rows_one (p # idx) W = set_rows_one idx ?W" by (simp add: set_rows_one_def p)
  have r: "r < length ?W" using Cons.prems by simp
  have len: "length (?W ! r) = length (W ! r)" using Cons.prems by (simp add: nth_update_any)
  show ?case unfolding step Cons.IH[OF r] len
    using Cons.prems by (auto simp: p nth_update_any)
qed

lemma set_cells_two_shape:
  "length (set_cells_two idx W) = length W \<and> (\<forall>r<length W. length (set_cells_two idx W ! r) = length (W ! r))"
proof (induction idx arbitrary: W)
  case Nil
  then show ?case by (simp add: set_cells_two_def)
next
  case (Cons p idx)
  obtain r c where p: "p = (r, c)" by (cases p)
  let ?W = "W[r := (W ! r)[c := 2]]"
  have "set_cells_two (p # idx) W = set_cells_two idx ?W" by (simp add: set_cells_two_def p)
  moreover have "length ?W = length W" "\<forall>r'<length W. length (?W ! r') = length (W ! r')"
    by (simp_all add: nth_update_any)
  ultimately show ?case using Cons.IH[of ?W] by simp
qed

lemma set_cells_two_nth:
  "r < length W \<Longrightarrow> c < length (W ! r) \<Longrightarrow>
   set_cells_two idx W ! r ! c = (if (r, c) \<in> set idx then 2 else W ! r ! c)"
proof (induction idx arbitrary: W)
  case Nil
  then show ?case by (simp add: set_cells_two_def)
next
  case (Cons p idx)
  obtain r' c' where p: "p = (r', c')" by (cases p)
  let ?W = "W[r' := (W ! r')[c' := 2]]"
  have step: "set_cells_two (p # idx) W = set_cells_two idx ?W" by (simp add: set_cells_two_def p)
  have r: "r < length ?W" using Cons.prems by simp
  have c: "c < length (?W ! r)" using Cons.prems by (simp add: nth_update_any)
  show ?case unfolding step Cons.IH[OF r c]
    using Cons.prems by (auto simp: p nth_update_any)
qed

lemma row_has_one:
  "r < length labels \<Longrightarrow> r \<in> fst ` set (np_where_one labels) \<longleftrightarrow> 1 \<in> set (labels ! r)"
proof -
  assume r: "r < length labels"
  have "r \<in> fst ` set (np_where_one labels) \<longleftrightarrow> (\<exists>c. (r, c) \<in> set (np_where_one labels))"
    by force
  also have "\<dots> \<longleftrightarrow> (\<exists>c<length (labels ! r). labels ! r ! c = 1)"
    using r by (auto simp: in_np_where_one)
  also have "\<dots> \<longleftrightarrow> 1 \<in> set (labels ! r)"
    by (auto simp: in_set_conv_nth)
  finally show ?thesis .
qed

text \<open>
  Claim C7, amended. \<open>weights_from_labels\<close> returns an array of the shape of the labels
  with weight 2 where the label is 1, weight 1 at the other positions of a row that
  holds a label 1, and the default weight 0.25 in the rows without a label 1.
\<close>

theorem weights_from_labels_cells:
  "length (weights_from_labels labels) = length labels
   \<and> (\<forall>r<length labels.
         length (weights_from_labels labels ! r) = length (labels ! r)
       \<and> (\<forall>c<length (labels ! r).
             weights_from_labels labels ! r ! c =
               (if labels ! r ! c = 1 then 2 else if 1 \<in> set (labels ! r) then 1 else 1 / 4)))"
proof -
  let ?idx = "np_where_one labels"
  let ?W0 = "zeros_like labels"
  let ?W1 = "set_rows_one ?idx ?W0"
  let ?W2 = "set_cells_two ?idx ?W1"
  have w: "weights_from_labels labels = map (map (\<lambda>w. if w = 0 then 1 / 4 else w)) ?W2"
    by (simp add: weights_from_labels_def Let_def)
  have l0: "length ?W0 = length labels" by (simp add: zeros_like_def)
  have l1: "length ?W1 = length labels" using set_rows_one_shape[of ?idx ?W0] l0 by simp
  have l2: "length ?W2 = length labels" using set_cells_two_shape[of ?idx ?W1] l1 by simp
  have cells: "length (?W2 ! r) = length (labels ! r)
       \<and> (\<forall>c<length (labels ! r). ?W2 ! r ! c =
             (if labels ! r ! c = 1 then 2 else if 1 \<in> set (labels ! r) then 1 else 0))"
    if r: "r < length labels" for r
  proof -
    have r0: "r < length ?W0" and r1: "r < length ?W1" using r l0 l1 by simp_all
    have z: "?W0 ! r = replicate (length (labels ! r)) 0" using r by (simp add: zeros_like_def)
    have w1: "?W1 ! r = (if 1 \<in> set (labels ! r) then replicate (length (labels ! r)) 1
                         else replicate (length (labels ! r)) 0)"
      using set_rows_one_nth[OF r0, of ?idx] row_has_one[OF r] by (simp add: z)
    then have len1: "length (?W1 ! r) = length (labels ! r)" by simp
    have len2: "length (?W2 ! r) = length (labels ! r)"
      using set_cells_two_shape[of ?idx ?W1] r1 len1 by simp
    have "?W2 ! r ! c = (if labels ! r ! c = 1 then 2 else if 1 \<in> set (labels ! r) then 1 else 0)"
      if c: "c < length (labels ! r)" for c
    proof -
      have "?W2 ! r ! c = (if (r, c) \<in> set ?idx then 2 else ?W1 ! r ! c)"
        using r1 c len1 by (intro set_cells_two_nth) simp_all
      then show ?thesis using r c by (simp add: in_np_where_one w1)
    qed
    then show ?thesis using len2 by blast
  qed
  show ?thesis
  proof (intro conjI allI impI)
    show "length (weights_from_labels labels) = length labels" by (simp add: w l2)
  next
    fix r assume r: "r < length labels"
    then show "length (weights_from_labels labels ! r) = length (labels ! r)"
      using cells[OF r] by (simp add: w l2)
  next
    fix r c assume r: "r < length labels" and c: "c < length (labels ! r)"
    have "?W2 ! r ! c = (if labels ! r ! c = 1 then 2 else if 1 \<in> set (labels ! r) then 1 else 0)"
      using cells[OF r] c by blast
    moreover have "weights_from_labels labels ! r ! c = (\<lambda>w. if w = 0 then 1 / 4 else w) (?W2 ! r ! c)"
      using r c cells[OF r] by (simp add: w l2)
    ultimately show "weights_from_labels labels ! r ! c =
               (if labels ! r ! c = 1 then 2 else if 1 \<in> set (labels ! r) then 1 else 1 / 4)"
      by simp
  qed
qed

theorem weights_from_labels_cells_witness:
  "(0::nat) < length [[1, 0 :: rat], [0, 0]] \<and> (1::nat) < length ([[1, 0 :: rat], [0, 0]] ! 0)
   \<and> weights_from_labels [[1, 0], [0, 0]] ! 0 ! 1 = 1
   \<and> weights_from_labels [[1, 0], [0, 0]] ! 0 ! 0 = 2
   \<and> weights_from_labels [[1, 0], [0, 0]] ! 1 ! 1 = 1 / 4"
  using weights_from_labels_cells[of "[[1, 0], [0, 0]]"] by simp

text \<open>
  The claim as stated gives the default weight 0.25 to every position whose label is
  not 1. For the one-row array [[1, 0]] the code returns the weight 1 at the second
  position.
\<close>

theorem weights_from_labels_counterexample:
  "weights_from_labels [[1, 0]] = [[2, 1]] \<and> weights_from_labels [[1, 0]] \<noteq> [[2, 1 / 4]]"
  by (simp add: weights_from_labels_def np_where_one_def zeros_like_def set_rows_one_def
      set_cells_two_def)

section \<open>Proofs: inference\<close>

lemma good_zero_predictor: "good_predictor C zero_predictor"
  by (simp add: good_predictor_def zero_predictor_def has_shape_def)

lemma activation_step_ok:
  assumes "good_predictor C pred" "length split = C"
  shows "\<exists>na' oa'. activation_step pred split (na, oa) = Inr (na', oa')
     \<and> length na' = length na + C \<and> length oa' = length oa + C"
proof -
  obtain f o' where p: "pred split = (f, o')" by (cases "pred split")
  have "has_shape C 88 f" "has_shape C 88 o'" using assms p by (auto simp: good_predictor_def)
  then show ?thesis
    by (simp add: activation_step_def get_activation_def p np_append_rows_def has_shape_def)
qed

lemma activation_loop_ok:
  assumes "good_predictor C pred"
  shows "\<forall>split \<in> set cs. length split = C \<Longrightarrow>
    \<exists>na' oa'. for_each (activation_step pred) cs (na, oa) = Inr (na', oa')
     \<and> length na' = length na + length cs * C \<and> length oa' = length oa + length cs * C"
proof (induction cs arbitrary: na oa)
  case Nil
  then show ?case by simp
next
  case (Cons x xs)
  have x: "length x = C" using Cons.prems by simp
  obtain na1 oa1 where s: "activation_step pred x (na, oa) = Inr (na1, oa1)"
    "length na1 = length na + C" "length oa1 = length oa + C"
    using activation_step_ok[OF assms x] by blast
  have "\<forall>split \<in> set xs. length split = C" using Cons.prems by simp
  from Cons.IH[OF this, of na1 oa1] obtain na' oa' where
    r: "for_each (activation_step pred) xs (na1, oa1) = Inr (na', oa')"
    "length na' = length na1 + length xs * C" "length oa' = length oa1 + length xs * C"
    by blast
  have "for_each (activation_step pred) (x # xs) (na, oa) = Inr (na', oa')" using s(1) r(1) by simp
  moreover have "length na' = length na + length (x # xs) * C" using s(2) r(2) by simp
  moreover have "length oa' = length oa + length (x # xs) * C" using s(3) r(3) by simp
  ultimately show ?case by blast
qed

lemma length_padded: "length (padded C m xs k) = C"
  by (simp add: padded_def np_zeros_def chunk_def)

lemma length_rows_slice_nat:
  "length (rows_slice M (int a) (int b)) = min b (length M) - min a (length M)"
  by (auto simp: rows_slice_def slice_bound_nat Let_def)

lemma activation_rows:
  assumes gp: "good_predictor C pred" and sh: "has_shape F bins spec" and F: "0 < F" and C: "0 < C"
  shows "\<exists>note_activation onset_activation.
      spectrogram_to_non_overlap_note_activation spec (int C) pred
        = Inr (note_activation, onset_activation)
    \<and> length onset_activation = F
    \<and> length note_activation = min F (n_chunks F C * C - 2)"
proof -
  let ?n = "n_chunks F C"
  let ?cs = "map (padded C bins spec) [0..<?n]"
  have len: "length spec = F" using sh by (simp add: has_shape_def)
  have ch: "util_chunks spec (int C) = Inr (map (chunk C spec) [0..<?n])"
    using chunks_pos[OF C, of spec] by (simp add: util_chunks_def len)
  have pad: "pad_last (int C) (map (chunk C spec) [0..<?n]) = Inr ?cs"
    using C F sh by (rule pad_last_chunks)
  have "\<forall>split \<in> set ?cs. length split = C" by (auto simp: length_padded)
  from activation_loop_ok[OF gp this, of "np_zeros 1 88" "np_zeros 1 88"]
  obtain na oa where loop: "for_each (activation_step pred) ?cs (np_zeros 1 88, np_zeros 1 88) = Inr (na, oa)"
    and lna: "length na = 1 + ?n * C" and loa: "length oa = 1 + ?n * C"
    by (auto simp: np_zeros_def)
  have res: "spectrogram_to_non_overlap_note_activation spec (int C) pred
      = Inr (rows_slice na (int 3) (int (F + 3)), rows_slice oa (int 1) (int (F + 1)))"
    unfolding spectrogram_to_non_overlap_note_activation_def ch bind_err_simps pad loop
    by (simp add: len add.commute)
  have cover: "F \<le> ?n * C" using F C by (rule chunks_cover)
  have "length (rows_slice oa (int 1) (int (F + 1))) = min (F + 1) (length oa) - min 1 (length oa)"
    by (rule length_rows_slice_nat)
  then have o: "length (rows_slice oa (int 1) (int (F + 1))) = F"
    using cover unfolding loa by (simp add: min_def)
  have "length (rows_slice na (int 3) (int (F + 3))) = min (F + 3) (length na) - min 3 (length na)"
    by (rule length_rows_slice_nat)
  then have n: "length (rows_slice na (int 3) (int (F + 3))) = min F (?n * C - 2)"
    using cover unfolding lna by (simp add: min_def) linarith
  show ?thesis using res o n by blast
qed

text \<open>
  Claim C4 says that \<open>spectrogram_to_non_overlap_note_activation\<close> returns exactly
  \<open>spec.shape[0]\<close> rows of frame activations and of onset activations. For a chunk
  length \<open>C > 1\<close> (so that \<open>np.squeeze\<close> removes the batch axis only) the buffers hold
  one placeholder row and \<open>C\<close> rows for each of the \<open>ceil(F / C)\<close> chunks. The onset slice
  \<open>[1 : F + 1]\<close> always fits and has \<open>F\<close> rows; the frame slice \<open>[3 : F + 3]\<close> is
  clipped to \<open>min F (ceil(F / C) * C - 2)\<close> rows, which is fewer than \<open>F\<close> when the last
  chunk has less than two rows of padding: \<open>F - 2\<close> rows when \<open>F\<close> is a multiple of \<open>C\<close>.
\<close>

theorem non_overlap_activation_rows:
  assumes "good_predictor C pred" and "has_shape F bins spec" and "0 < F" and "1 < C"
  shows "(\<exists>note_activation onset_activation.
      spectrogram_to_non_overlap_note_activation spec (int C) pred
        = Inr (note_activation, onset_activation)
    \<and> length onset_activation = F
    \<and> length note_activation = min F (n_chunks F C * C - 2))
    \<and> (F = n_chunks F C * C \<longrightarrow> 2 \<le> F \<longrightarrow> min F (n_chunks F C * C - 2) = F - 2)"
proof -
  have C: "0 < C" using assms(4) by simp
  show ?thesis using activation_rows[OF assms(1,2,3) C] by auto
qed

theorem non_overlap_activation_rows_witness:
  "good_predictor 10 zero_predictor \<and> has_shape 10 1 (replicate 10 [1 / 2 :: rat])
   \<and> (0::nat) < 10 \<and> (1::nat) < 10
   \<and> (\<exists>note_activation onset_activation.
        spectrogram_to_non_overlap_note_activation (replicate 10 [1 / 2]) 10 zero_predictor
          = Inr (note_activation, onset_activation)
      \<and> length onset_activation = 10 \<and> length note_activation = 8)"
proof -
  have gp: "good_predictor 10 zero_predictor" by (rule good_zero_predictor)
  have sh: "has_shape 10 1 (replicate 10 [1 / 2 :: rat])" by (simp add: has_shape_def)
  have p: "(0::nat) < 10" and q: "(1::nat) < 10" by simp_all
  have n: "n_chunks 10 10 = 1" by (simp add: n_chunks_def)
  have "\<exists>note_activation onset_activation.
        spectrogram_to_non_overlap_note_activation (replicate 10 [1 / 2]) 10 zero_predictor
          = Inr (note_activation, onset_activation)
      \<and> length onset_activation = 10 \<and> length note_activation = 8"
    using conjunct1[OF non_overlap_activation_rows[OF gp sh p q]] by (simp add: n)
  then show ?thesis using gp sh p q by (intro conjI)
qed

lemma read_local_None: "read_local name None = Inl (UnboundLocalError name)"
  by (simp add: read_local_def)

lemma bind_err_Inr_iff:
  "bind_err m f = Inr y \<longleftrightarrow> (\<exists>x. m = Inr x \<and> f x = Inr y)"
  by (cases m) simp_all

lemma non_rnn_never_returns:
  "get_note_activation spec ns fps nf C pred k False \<noteq> Inr res"
  by (auto simp: get_note_activation_def bind_err_Inr_iff read_local_None)

lemma non_rnn_unbound:
  assumes "py_recip fps = Inr dt"
    and "midi_to_triple_groundtruth ns dt (length spec) k = Inr gt"
    and "normalise nf spec = Inr S"
    and "spectrogram_to_note_activation S C pred = Inr na"
  shows "get_note_activation spec ns fps nf C pred k False = Inl (UnboundLocalError ''onset_activation'')"
proof -
  obtain a b c d where gt: "gt = (a, b, c, d)" by (cases gt)
  show ?thesis using assms by (simp add: get_note_activation_def gt read_local_None)
qed

lemma sliding_window_empty:
  "int (length spec) \<le> 2 * C \<Longrightarrow>
   spectrogram_to_note_activation spec C pred = Inr (drop 8 (np_zeros (length spec) 88) @ np_zeros 8 88)"
  by (simp add: spectrogram_to_note_activation_def py_range_def)

lemma sliding_window_result:
  assumes "0 \<le> C"
  shows "spectrogram_to_note_activation S C pred =
     (if 2 * C < int (length S) then Inl ValueError
      else Inr (drop 8 (np_zeros (length S) 88) @ np_zeros 8 88))"
proof (cases "2 * C < int (length S)")
  case True
  then have "C < int (length S) - C" by simp
  then have r: "py_range C (int (length S) - C) = C # py_range (C + 1) (int (length S) - C)"
    by (rule py_range_nonempty)
  have "py_index (length (np_zeros (length S) 88 :: rat list list)) C = Inr (nat C)"
    using assms True by (intro py_index_in_range) (simp_all add: np_zeros_def)
  then have "assign_row_pair C v (np_zeros (length S) 88) = Inl ValueError" for v
    by (simp add: assign_row_pair_def)
  then show ?thesis using True by (simp add: spectrogram_to_note_activation_def r)
next
  case False
  then show ?thesis using sliding_window_empty[of S C pred] by simp
qed

lemma non_rnn_steps:
  "get_note_activation spec ns fps nf C pred k False =
     bind_err (py_recip fps) (\<lambda>dt.
     bind_err (midi_to_triple_groundtruth ns dt (length spec) k) (\<lambda>gt.
     bind_err (normalise nf spec) (\<lambda>S.
     bind_err (spectrogram_to_note_activation S C pred) (\<lambda>na.
     Inl (UnboundLocalError ''onset_activation'')))))"
proof (cases "py_recip fps")
  case (Inl e)
  then show ?thesis by (simp add: get_note_activation_def)
next
  case dt: (Inr dt)
  show ?thesis
  proof (cases "midi_to_triple_groundtruth ns dt (length spec) k")
    case (Inl e)
    then show ?thesis using dt by (simp add: get_note_activation_def)
  next
    case gt: (Inr gt)
    obtain a b c d where g: "gt = (a, b, c, d)" by (cases gt)
    show ?thesis
    proof (cases "normalise nf spec")
      case (Inl e)
      then show ?thesis using dt gt g by (simp add: get_note_activation_def)
    next
      case S: (Inr S)
      show ?thesis
      proof (cases "spectrogram_to_note_activation S C pred")
        case (Inl e)
        then show ?thesis using dt gt g S by (simp add: get_note_activation_def)
      next
        case (Inr na)
        then show ?thesis using dt gt g S by (simp add: get_note_activation_def read_local_None)
      qed
    qed
  qed
qed

lemma non_rnn_well_formed:
  assumes fps: "0 < fps" and pn: "\<forall>nt \<in> set ns. piano_note nt"
    and sh: "has_shape F bins spec" and F: "0 < F" and bins: "0 < bins" and C: "0 \<le> C"
  shows "get_note_activation spec ns fps nf C pred k False =
     (if \<exists>nt \<in> set ns. int F \<le> note_end (1 / fps) nt then Inl IndexError
      else if 2 * C < int F then Inl ValueError
      else Inl (UnboundLocalError ''onset_activation''))"
proof -
  have len: "length spec = F" using sh by (simp add: has_shape_def)
  have dt: "0 < 1 / fps" using fps by simp
  have r: "py_recip fps = Inr (1 / fps)" using fps by (simp add: py_recip_def)
  show ?thesis
  proof (cases "\<exists>nt \<in> set ns. int F \<le> note_end (1 / fps) nt")
    case True
    have "midi_to_triple_groundtruth ns (1 / fps) F k = Inl IndexError"
      using dt pn True by (rule triple_fails)
    then show ?thesis using True by (simp add: non_rnn_steps r len)
  next
    case False
    then have "\<forall>nt \<in> set ns. note_end (1 / fps) nt < int F" by auto
    then obtain gt where gt: "midi_to_triple_groundtruth ns (1 / fps) F k = Inr gt"
      using triple_returns[OF dt pn] by blast
    obtain S where S: "normalise nf spec = Inr S" and shS: "has_shape F bins S"
      using has_shape_normalise[OF sh F bins] by blast
    have lenS: "length S = F" using shS by (simp add: has_shape_def)
    show ?thesis using False
      by (simp add: non_rnn_steps r len gt S sliding_window_result[OF C] lenS)
  qed
qed

text \<open>
  Claim C9, amended. A call of \<open>get_note_activation\<close> with \<open>use_rnn = False\<close> runs, in this
  order, \<open>1 / fps\<close>, \<open>midi_to_triple_groundtruth\<close>, the normalisation and
  \<open>spectrogram_to_note_activation\<close>, fails with the error of the first of them that
  fails, and fails at the \<open>return\<close> with the unbound local \<open>onset_activation\<close> when all
  four complete: it never returns normally, and a call that returns normally has
  \<open>use_rnn\<close> true. For \<open>context_frames \<ge> 0\<close>, \<open>spectrogram_to_note_activation\<close> fails with
  ValueError at its first centre frame whenever the spectrogram has more than
  \<open>2 * context_frames\<close> frames, and returns the zero array otherwise. So on a non-empty
  spectrogram with a positive \<open>fps\<close>, notes of the piano range and
  \<open>context_frames \<ge> 0\<close>, the call fails with IndexError when some note has
  frame\_end \<ge> n\_frames, else with ValueError when the spectrogram has more than
  \<open>2 * context_frames\<close> frames, and with the unbound local only in the remaining case.
\<close>

theorem get_note_activation_non_rnn:
  "get_note_activation spec ns fps nf C pred k False =
     bind_err (py_recip fps) (\<lambda>dt.
     bind_err (midi_to_triple_groundtruth ns dt (length spec) k) (\<lambda>gt.
     bind_err (normalise nf spec) (\<lambda>S.
     bind_err (spectrogram_to_note_activation S C pred) (\<lambda>na.
     Inl (UnboundLocalError ''onset_activation'')))))
   \<and> (\<forall>res. get_note_activation spec ns fps nf C pred k False \<noteq> Inr res)
   \<and> (\<forall>res use_rnn. get_note_activation spec ns fps nf C pred k use_rnn = Inr res \<longrightarrow> use_rnn)
   \<and> (\<forall>S. 0 \<le> C \<longrightarrow> spectrogram_to_note_activation S C pred =
          (if 2 * C < int (length S) then Inl ValueError
           else Inr (drop 8 (np_zeros (length S) 88) @ np_zeros 8 88)))
   \<and> (0 < fps \<longrightarrow> (\<forall>nt \<in> set ns. piano_note nt) \<longrightarrow> has_shape F bins spec \<longrightarrow> 0 < F
        \<longrightarrow> 0 < bins \<longrightarrow> 0 \<le> C \<longrightarrow>
        get_note_activation spec ns fps nf C pred k False =
          (if \<exists>nt \<in> set ns. int F \<le> note_end (1 / fps) nt then Inl IndexError
           else if 2 * C < int F then Inl ValueError
           else Inl (UnboundLocalError ''onset_activation'')))"
proof (intro conjI allI impI)
  show "get_note_activation spec ns fps nf C pred k False =
     bind_err (py_recip fps) (\<lambda>dt.
     bind_err (midi_to_triple_groundtruth ns dt (length spec) k) (\<lambda>gt.
     bind_err (normalise nf spec) (\<lambda>S.
     bind_err (spectrogram_to_note_activation S C pred) (\<lambda>na.
     Inl (UnboundLocalError ''onset_activation'')))))"
    by (rule non_rnn_steps)
next
  fix res
  show "get_note_activation spec ns fps nf C pred k False \<noteq> Inr res"
    by (rule non_rnn_never_returns)
next
  fix res use_rnn
  assume "get_note_activation spec ns fps nf C pred k use_rnn = Inr res"
  then show use_rnn using non_rnn_never_returns[of spec ns fps nf C pred k res] by (cases use_rnn) auto
next
  fix S assume "0 \<le> C"
  then show "spectrogram_to_note_activation S C pred =
          (if 2 * C < int (length S) then Inl ValueError
           else Inr (drop 8 (np_zeros (length S) 88) @ np_zeros 8 88))"
    by (rule sliding_window_result)
next
  assume "0 < fps" "\<forall>nt \<in> set ns. piano_note nt" "has_shape F bins spec" "0 < F" "0 < bins" "0 \<le> C"
  then show "get_note_activation spec ns fps nf C pred k False =
          (if \<exists>nt \<in> set ns. int F \<le> note_end (1 / fps) nt then Inl IndexError
           else if 2 * C < int F then Inl ValueError
           else Inl (UnboundLocalError ''onset_activation''))"
    by (rule non_rnn_well_formed)
qed

theorem get_note_activation_non_rnn_witness:
  "(0::rat) < 100 \<and> has_shape 12 1 (replicate 12 [1 / 2 :: rat]) \<and> (0::int) \<le> 5
   \<and> spectrogram_to_note_activation (replicate 12 [1 / 2]) 5 zero_predictor = Inl ValueError
   \<and> get_note_activation (replicate 12 [1 / 2]) [] 100 False 5 zero_predictor 0 False
       = Inl ValueError
   \<and> get_note_activation (replicate 12 [1 / 2]) [] 100 False 6 zero_predictor 0 False
       = Inl (UnboundLocalError ''onset_activation'')
   \<and> piano_note (0, 60, 1 / 2, 100, 0)
   \<and> int 12 \<le> note_end (1 / 100) (0, 60, 1 / 2, 100, 0)
   \<and> get_note_activation (replicate 12 [1 / 2]) [(0, 60, 1 / 2, 100, 0)] 100 False 5
        zero_predictor 0 False = Inl IndexError"
proof -
  let ?spec = "replicate 12 [1 / 2 :: rat]"
  let ?nt = "(0, 60, 1 / 2, 100, 0) :: midi_note"
  have fps: "(0::rat) < 100" by simp
  have sh: "has_shape 12 1 ?spec" by (simp add: has_shape_def)
  have C: "(0::int) \<le> 5" by simp
  have p: "piano_note ?nt" by (simp add: piano_note_def py_int_def)
  have e: "int 12 \<le> note_end (1 / 100) ?nt" by (simp add: single_note_frames)
  have a: "spectrogram_to_note_activation ?spec 5 zero_predictor = Inl ValueError"
    using conjunct1[OF conjunct2[OF conjunct2[OF conjunct2[OF
      get_note_activation_non_rnn[of ?spec "[]" 100 False 5 zero_predictor 0 12 1]]]]]
    by simp
  have b: "get_note_activation ?spec [] 100 False 5 zero_predictor 0 False = Inl ValueError"
    using conjunct2[OF conjunct2[OF conjunct2[OF conjunct2[OF
      get_note_activation_non_rnn[of ?spec "[]" 100 False 5 zero_predictor 0 12 1]]]]] sh
    by simp
  have c: "get_note_activation ?spec [] 100 False 6 zero_predictor 0 False
       = Inl (UnboundLocalError ''onset_activation'')"
    using conjunct2[OF conjunct2[OF conjunct2[OF conjunct2[OF
      get_note_activation_non_rnn[of ?spec "[]" 100 False 6 zero_predictor 0 12 1]]]]] sh
    by simp
  have d: "get_note_activation ?spec [?nt] 100 False 5 zero_predictor 0 False = Inl IndexError"
    using conjunct2[OF conjunct2[OF conjunct2[OF conjunct2[OF
      get_note_activation_non_rnn[of ?spec "[?nt]" 100 False 5 zero_predictor 0 12 1]]]]] sh p e
    by simp
  show ?thesis using fps sh C a b c p e d by (intro conjI)
qed

text \<open>
  The claim as stated has every non-recurrent call fail with the unbound name. A call
  whose MIDI file holds a note that ends at or after the last frame fails before, with
  the IndexError of \<open>midi_to_triple_groundtruth\<close>; a call on a spectrogram of 12 frames
  with \<open>context_frames = 5\<close> and no note fails before, with the ValueError of the row
  assignment of \<open>spectrogram_to_note_activation\<close>.
\<close>

theorem get_note_activation_counterexample:
  "get_note_activation [[1 / 2]] [(0, 60, 1 / 2, 100, 0)] 100 False 5 zero_predictor 0 False
     = Inl IndexError
   \<and> IndexError \<noteq> UnboundLocalError ''onset_activation''
   \<and> get_note_activation (replicate 12 [1 / 2]) [] 100 False 5 zero_predictor 0 False
     = Inl ValueError
   \<and> ValueError \<noteq> UnboundLocalError ''onset_activation''"
proof -
  have "(0::rat) < 1 / 100" by simp
  moreover have "\<forall>nt \<in> set [(0, 60, 1 / 2, 100, 0) :: midi_note]. piano_note nt"
    by (simp add: piano_note_def py_int_def)
  moreover have "\<exists>nt \<in> set [(0, 60, 1 / 2, 100, 0) :: midi_note]. int 1 \<le> note_end (1 / 100) nt"
    by (simp add: single_note_frames)
  ultimately have "midi_to_triple_groundtruth [(0, 60, 1 / 2, 100, 0)] (1 / 100) 1 0 = Inl IndexError"
    by (rule triple_fails)
  then have a: "get_note_activation [[1 / 2]] [(0, 60, 1 / 2, 100, 0)] 100 False 5 zero_predictor 0 False
     = Inl IndexError"
    by (simp add: get_note_activation_def py_recip_def)
  have "has_shape 12 1 (replicate 12 [1 / 2 :: rat])" by (simp add: has_shape_def)
  then have b: "get_note_activation (replicate 12 [1 / 2]) [] 100 False 5 zero_predictor 0 False
     = Inl ValueError"
    using non_rnn_well_formed[of 100 "[]" 12 1 "replicate 12 [1 / 2]" 5 False zero_predictor 0]
    by simp
  show ?thesis using a b by simp
qed

section \<open>Proofs: the model function\<close>

lemma sigmoid_0: "sigmoid 0 = 1 / 2"
  by (simp add: sigmoid_def)

lemma py_getitem_ok: "0 \<le> i \<Longrightarrow> i < int (length xs) \<Longrightarrow> py_getitem xs i = Inr (xs ! nat i)"
  by (simp add: py_getitem_def py_index_in_range)

lemma non_rnn_unbound_tensor:
  assumes "mode = PREDICT \<or> (\<exists>ls. labels = Some ls \<and> 2 \<le> length ls)"
  shows "conv_net_init nets features labels mode clip_norm False
       = Inl (UnboundLocalError ''probs_subdiv_1'')"
proof (cases "mode = PREDICT")
  case True
  then show ?thesis by (simp add: conv_net_init_def read_local_def)
next
  case False
  then obtain ls where ls: "labels = Some ls" "2 \<le> length ls" using assms by blast
  have len: "(0::int) < int (length ls)" "(1::int) < int (length ls)" using ls(2) by auto
  have "py_getitem ls 0 = Inr (ls ! nat 0)" "py_getitem ls 1 = Inr (ls ! nat 1)"
    using len by (simp_all add: py_getitem_def py_index_def)
  then show ?thesis using False ls(1) by (simp add: conv_net_init_def read_local_def)
qed

lemma non_rnn_no_spec:
  "conv_net_init nets features labels mode clip_norm False \<noteq> Inr spec"
proof (cases "mode = PREDICT")
  case True
  then show ?thesis by (simp add: conv_net_init_def read_local_def)
next
  case False
  show ?thesis
  proof (cases labels)
    case None
    then show ?thesis using False by (simp add: conv_net_init_def)
  next
    case (Some ls)
    show ?thesis
    proof (cases "py_getitem ls 0")
      case (Inl e)
      then show ?thesis using False Some by (simp add: conv_net_init_def)
    next
      case a: (Inr a)
      show ?thesis
      proof (cases "py_getitem ls 1")
        case (Inl e)
        then show ?thesis using False Some a by (simp add: conv_net_init_def)
      next
        case (Inr b)
        then show ?thesis using False Some a by (simp add: conv_net_init_def read_local_def)
      qed
    qed
  qed
qed

text \<open>
  Claim C3. With \<open>use_rnn\<close> false, \<open>conv_net_init\<close> computes only the logits of the plain
  network, and the fusion code that follows reads \<open>probs_subdiv_1\<close>, which only the
  recurrent branch assigns. No call with \<open>use_rnn\<close> false returns an EstimatorSpec; the
  call fails on the unbound \<open>probs_subdiv_1\<close> in PREDICT mode and, in the other modes,
  whenever the label tensor holds the frame and the onset labels that the function
  unpacks first.
\<close>

theorem conv_net_init_non_rnn_fails:
  assumes "\<not> use_rnn"
  shows "(\<forall>spec. conv_net_init nets features labels mode clip_norm use_rnn \<noteq> Inr spec)
     \<and> (mode = PREDICT \<or> (\<exists>ls. labels = Some ls \<and> 2 \<le> length ls) \<longrightarrow>
          conv_net_init nets features labels mode clip_norm use_rnn
            = Inl (UnboundLocalError ''probs_subdiv_1''))"
  using assms non_rnn_no_spec non_rnn_unbound_tensor by simp

theorem conv_net_init_non_rnn_fails_witness:
  "\<not> False \<and> (\<exists>ls. Some [[1], [0 :: real]] = Some ls \<and> 2 \<le> length ls)
   \<and> conv_net_init const_networks [] (Some [[1], [0]]) TRAIN (1 / 10 ^ 7) False
        = Inl (UnboundLocalError ''probs_subdiv_1'')
   \<and> conv_net_init const_networks [] None PREDICT (1 / 10 ^ 7) False
        = Inl (UnboundLocalError ''probs_subdiv_1'')"
proof -
  have f: "\<not> False" by simp
  have l: "\<exists>ls. Some [[1], [0 :: real]] = Some ls \<and> 2 \<le> length ls" by simp
  have a: "conv_net_init const_networks [] (Some [[1], [0]]) TRAIN (1 / 10 ^ 7) False
        = Inl (UnboundLocalError ''probs_subdiv_1'')"
    using conv_net_init_non_rnn_fails[OF f, of const_networks "[]" "Some [[1], [0]]" TRAIN "1 / 10 ^ 7"] l
    by blast
  have b: "conv_net_init const_networks [] None PREDICT (1 / 10 ^ 7) False
        = Inl (UnboundLocalError ''probs_subdiv_1'')"
    using conv_net_init_non_rnn_fails[OF f, of const_networks "[]" None PREDICT "1 / 10 ^ 7"]
    by blast
  show ?thesis using f l a b by (intro conjI)
qed

lemma swapped_term_differs:
  assumes "0 < (e::real)"
  shows "- (1 / 2 * ln (1 + e)) - 1 / 2 * ln e \<noteq> - ln (1 / 2 + e)"
proof
  assume eq: "- (1 / 2 * ln (1 + e)) - 1 / 2 * ln e = - ln (1 / 2 + e)"
  have pos: "0 < 1 + e" "0 < 1 / 2 + e" "0 < (1 + e) * e" "0 < (1 / 2 + e) * (1 / 2 + e)"
    using assms by simp_all
  have "ln (1 + e) + ln e = ln (1 / 2 + e) + ln (1 / 2 + e)" using eq by simp
  then have "ln ((1 + e) * e) = ln ((1 / 2 + e) * (1 / 2 + e))"
    using assms pos(1,2) by (simp add: ln_mult)
  then have "(1 + e) * e = (1 / 2 + e) * (1 / 2 + e)"
    using pos(3,4) by (simp only: ln_inj_iff)
  then show False by (simp add: algebra_simps)
qed

lemma rnn_loss:
  assumes mode: "mode \<noteq> PREDICT" and labels: "labels = Some (label_frames # label_onset # rest)"
    and p1: "p1 = tf_sigmoid (resnet_rnn_frames nets features (mode = TRAIN))"
    and p2: "p2 = tf_sigmoid (resnet_rnn_onsets nets features (mode = TRAIN))"
    and comb: "comb = fc_frame nets p1 p2"
    and len: "length p1 = length label_frames" "length p2 = length label_onset"
      "length comb = length label_frames"
  shows "\<exists>spec. conv_net_init nets features labels mode clip_norm True = Inr spec
     \<and> es_loss spec = Some (reduce_mean (spec_log_loss clip_norm label_frames p1)
                           + reduce_mean (spec_log_loss clip_norm label_onset p2)
                           + reduce_mean (spec_log_loss clip_norm comb label_frames))"
  using mode len unfolding labels p1 p2 comb
  by (simp add: conv_net_init_def py_getitem_def py_index_def read_local_def log_loss_def
      spec_log_loss_def Let_def)

lemma swapped_mean_differs:
  assumes "0 < (e::real)"
  shows "reduce_mean (spec_log_loss e [1 / 2] [1]) \<noteq> reduce_mean (spec_log_loss e [1] [1 / 2])"
  using swapped_term_differs[OF assms] by (simp add: reduce_mean_def spec_log_loss_def)

lemma rnn_loss_const:
  "\<exists>spec. conv_net_init const_networks [] (Some [[1], [0]]) EVAL e True = Inr spec
     \<and> es_loss spec = Some (reduce_mean (spec_log_loss e [1] (tf_sigmoid [0]))
                           + reduce_mean (spec_log_loss e [0] (tf_sigmoid [0]))
                           + reduce_mean (spec_log_loss e [1 / 2] [1]))"
  by (rule rnn_loss[where rest = "[]"]) (simp_all add: const_networks_def tf_sigmoid_def)

lemma rnn_loss_example:
  assumes "0 < (e::real)"
  shows "\<exists>spec v. conv_net_init const_networks [] (Some [[1], [0]]) EVAL e True = Inr spec
     \<and> es_loss spec = Some v
     \<and> v \<noteq> spec_total_loss e [1] [0] (tf_sigmoid [0]) (tf_sigmoid [0]) [1 / 2]"
proof -
  let ?v = "reduce_mean (spec_log_loss e [1] (tf_sigmoid [0]))
          + reduce_mean (spec_log_loss e [0] (tf_sigmoid [0]))
          + reduce_mean (spec_log_loss e [1 / 2] [1])"
  obtain spec where s: "conv_net_init const_networks [] (Some [[1], [0]]) EVAL e True = Inr spec"
    "es_loss spec = Some ?v"
    using rnn_loss_const[of e] by (elim exE conjE)
  have "?v \<noteq> spec_total_loss e [1] [0] (tf_sigmoid [0]) (tf_sigmoid [0]) [1 / 2]"
    using swapped_mean_differs[OF assms] unfolding spec_total_loss_def by linarith
  then show ?thesis using s by (intro exI conjI)
qed

text \<open>
  Claim C2 says that the third loss term of the recurrent path compares the frame labels
  (as \<open>y\<close>) with the combined probabilities (as \<open>p\<close>). The code calls
  \<open>log_loss(combined_probs, label_frames)\<close>, with the two arguments exchanged: the total
  loss is the sum of the means of the first two terms as the claim has them and of the
  term with the combined probabilities as \<open>y\<close> and the frame labels as \<open>p\<close>. For
  frame label 1, onset label 0, sub-network probabilities 0.5, combined probability 0.5
  and \<open>clip_norm = 1e-7\<close> the loss of the code differs from the loss of the claim.
\<close>

theorem conv_net_loss_third_term:
  assumes "mode \<noteq> PREDICT" and "labels = Some (label_frames # label_onset # rest)"
    and "p1 = tf_sigmoid (resnet_rnn_frames nets features (mode = TRAIN))"
    and "p2 = tf_sigmoid (resnet_rnn_onsets nets features (mode = TRAIN))"
    and "comb = fc_frame nets p1 p2"
    and "length p1 = length label_frames" and "length p2 = length label_onset"
    and "length comb = length label_frames"
  shows "(\<exists>spec. conv_net_init nets features labels mode clip_norm True = Inr spec
     \<and> es_loss spec = Some (reduce_mean (spec_log_loss clip_norm label_frames p1)
                           + reduce_mean (spec_log_loss clip_norm label_onset p2)
                           + reduce_mean (spec_log_loss clip_norm comb label_frames)))
   \<and> (\<exists>spec v. conv_net_init const_networks [] (Some [[1], [0]]) EVAL (1 / 10 ^ 7) True = Inr spec
     \<and> es_loss spec = Some v
     \<and> v \<noteq> spec_total_loss (1 / 10 ^ 7) [1] [0] (tf_sigmoid [0]) (tf_sigmoid [0]) [1 / 2])"
proof -
  have "(0::real) < 1 / 10 ^ 7" by simp
  then show ?thesis using rnn_loss[OF assms] rnn_loss_example by (intro conjI)
qed

theorem conv_net_loss_third_term_witness:
  "EVAL \<noteq> PREDICT \<and> Some [[1], [0 :: real]] = Some ([1] # [0] # [])
   \<and> length (tf_sigmoid [0]) = length [1 :: real]
   \<and> length [1 / 2 :: real] = length [1 :: real]
   \<and> (\<exists>spec. conv_net_init const_networks [] (Some [[1], [0]]) EVAL (1 / 10 ^ 7) True = Inr spec
     \<and> es_loss spec = Some (reduce_mean (spec_log_loss (1 / 10 ^ 7) [1] (tf_sigmoid [0]))
                           + reduce_mean (spec_log_loss (1 / 10 ^ 7) [0] (tf_sigmoid [0]))
                           + reduce_mean (spec_log_loss (1 / 10 ^ 7) [1 / 2] [1])))"
proof -
  have a: "EVAL \<noteq> PREDICT" by simp
  have b: "Some [[1], [0 :: real]] = Some ([1] # [0] # [])" by simp
  have c: "tf_sigmoid [0] = tf_sigmoid (resnet_rnn_frames const_networks [] (EVAL = TRAIN))"
    by (simp add: const_networks_def)
  have d: "tf_sigmoid [0] = tf_sigmoid (resnet_rnn_onsets const_networks [] (EVAL = TRAIN))"
    by (simp add: const_networks_def)
  have e: "[1 / 2] = fc_frame const_networks (tf_sigmoid [0]) (tf_sigmoid [0])"
    by (simp add: const_networks_def)
  have f: "length (tf_sigmoid [0]) = length [1 :: real]" "length (tf_sigmoid [0]) = length [0 :: real]"
    "length [1 / 2 :: real] = length [1 :: real]"
    by (simp_all add: tf_sigmoid_def)
  note t = conjunct1[OF conv_net_loss_third_term[OF a b c d e f, of "1 / 10 ^ 7"]]
  show ?thesis using a b f(1,3) t by (intro conjI)
qed

end
